theory Spec2Isabelle
  imports Main "HOL-Library.Word" "HOL-Library.Monad_Syntax"
begin

unbundle bit_operations_syntax

section \<open>Conway's Game of Life on an 8x8 LED matrix (lIJfe.ino)\<close>

text \<open>
  The source holds two sketches: the first keeps each board as eight packed bytes
  (\<open>byte gameboard[]\<close>), the second keeps it as an 8x8 grid of \<open>boolean\<close>
  (\<open>boolean gameBoard[NUMROWS][NUMCOLS]\<close>). Both are embedded below; the names of the
  second sketch carry the suffix \<open>_g\<close> where they would clash with the first.

  \<open>byte\<close> is an unsigned 8-bit integer, \<open>char\<close> a signed 8-bit integer (avr-gcc);
  both are \<open>8 word\<close>, read with \<open>unat\<close>/\<open>uint\<close> and \<open>sint\<close> respectively.
  A read or write outside an array is a fault of the program: every operation returns an
  \<open>option\<close>, and \<open>None\<close> is that fault.
\<close>

type_synonym byte = "8 word"
type_synonym schar = "8 word"

definition NUMROWS :: int where
  "NUMROWS = 8"

definition NUMCOLS :: int where
  "NUMCOLS = 8"

subsection \<open>Arrays, loops and the Arduino bit macros\<close>

definition arr_get :: "'a list \<Rightarrow> nat \<Rightarrow> 'a option" where
  "arr_get xs i = (if i < length xs then Some (xs ! i) else None)"

definition arr_set :: "'a list \<Rightarrow> nat \<Rightarrow> 'a \<Rightarrow> 'a list option" where
  "arr_set xs i v = (if i < length xs then Some (xs[i := v]) else None)"

text \<open>A \<open>for\<close> loop over the listed values of its counter; a fault in the body ends it.\<close>

fun for_each :: "'a list \<Rightarrow> ('a \<Rightarrow> 's \<Rightarrow> 's option) \<Rightarrow> 's \<Rightarrow> 's option" where
  "for_each [] body s = Some s"
| "for_each (x # xs) body s =
     (case body x s of None \<Rightarrow> None | Some s' \<Rightarrow> for_each xs body s')"

text \<open>
  Modelled from the spec: the macros \<open>bitRead\<close>, \<open>bitSet\<close>, \<open>bitClear\<close> and
  \<open>bitWrite\<close> belong to the Arduino core and are not in the source file. The spec has
  one byte per row, with the bit position standing for the column; the macros read, set
  and clear the bit at a position, as the core defines them:
  \<open>((value) >> (bit)) & 0x01\<close>, \<open>(value) |= (1UL << (bit))\<close>,
  \<open>(value) &= ~(1UL << (bit))\<close>, and \<open>bitWrite\<close> choosing between the last two,
  with \<open>1UL\<close> a 32-bit constant and the result truncated to the byte it is stored in.
\<close>

definition bitRead :: "byte \<Rightarrow> nat \<Rightarrow> byte" where
  "bitRead v b = drop_bit b v AND 1"

definition bitSet :: "byte \<Rightarrow> nat \<Rightarrow> byte" where
  "bitSet v b = v OR ucast (push_bit b (1 :: 32 word))"

definition bitClear :: "byte \<Rightarrow> nat \<Rightarrow> byte" where
  "bitClear v b = v AND ucast (NOT (push_bit b (1 :: 32 word)))"

definition bitWrite :: "byte \<Rightarrow> nat \<Rightarrow> bool \<Rightarrow> byte" where
  "bitWrite v b x = (if x then bitSet v b else bitClear v b)"

subsection \<open>First sketch: boards as packed bytes\<close>

text \<open>
  The display driver \<open>lc\<close> and \<open>delay\<close> are external; what the sketch sends to them
  is kept as a log. \<open>rng\<close> is the hidden state of the pseudo-random generator: the raw
  values it will return next.
\<close>

datatype event = SetColumn nat byte | Delay nat

record life_state =
  gameboard :: "byte list"
  newgameboard :: "byte list"
  oldgameboard :: "byte list"
  rng :: "nat \<Rightarrow> nat"
  log :: "event list"

definition ij :: "byte list" where
  "ij = [0xC3, 0xC3, 0x00, 0x03, 0xC3, 0xE7, 0x7E, 0x3C]"

definition initial_gameboard :: "byte list" where
  "initial_gameboard = [0x00, 0x30, 0x60, 0x20, 0x00, 0x00, 0x00, 0x00]"

definition initial_state :: "(nat \<Rightarrow> nat) \<Rightarrow> life_state" where
  "initial_state r =
     \<lparr>gameboard = initial_gameboard,
      newgameboard = [0, 0, 0, 0, 0, 0, 0, 0],
      oldgameboard = [0, 0, 0, 0, 0, 0, 0, 0],
      rng = r, log = []\<rparr>"

text \<open>Conversion of an \<open>int\<close> to \<open>char\<close> keeps the low eight bits.\<close>

definition to_char :: "int \<Rightarrow> schar" where
  "to_char i = word_of_int i"

definition isCellAlive :: "life_state \<Rightarrow> schar \<Rightarrow> schar \<Rightarrow> bool option" where
  "isCellAlive s row col =
     (if sint row < 0 \<or> sint col < 0 \<or> sint row \<ge> NUMROWS \<or> sint col \<ge> NUMCOLS
      then Some False
      else do {
        g \<leftarrow> arr_get (gameboard s) (nat (sint row));
        Some (bitRead g (nat (sint col)) = 1)
      })"

text \<open>
  The body of the two nested loops of \<open>countNeighbors\<close>: \<open>rowDelta + row\<close> is computed
  on \<open>int\<close> and converted to the \<open>char\<close> parameter of \<open>isCellAlive\<close>.
\<close>

definition countNeighbors_body ::
  "life_state \<Rightarrow> byte \<Rightarrow> byte \<Rightarrow> int \<Rightarrow> int \<Rightarrow> byte \<Rightarrow> byte option" where
  "countNeighbors_body s row col rowDelta colDelta count =
     (if \<not> (colDelta = 0 \<and> rowDelta = 0)
      then do {
        a \<leftarrow> isCellAlive s (to_char (rowDelta + uint row)) (to_char (colDelta + uint col));
        Some (if a then count + 1 else count)
      }
      else Some count)"

definition countNeighbors :: "life_state \<Rightarrow> byte \<Rightarrow> byte \<Rightarrow> byte option" where
  "countNeighbors s row col =
     for_each [-1, 0, 1] (\<lambda>rowDelta.
       for_each [-1, 0, 1] (\<lambda>colDelta.
         countNeighbors_body s row col rowDelta colDelta)) 0"

definition update_newgameboard ::
  "nat \<Rightarrow> (byte \<Rightarrow> byte) \<Rightarrow> life_state \<Rightarrow> life_state option" where
  "update_newgameboard row f s = do {
     n \<leftarrow> arr_get (newgameboard s) row;
     Some (s\<lparr>newgameboard := (newgameboard s)[row := f n]\<rparr>)
   }"

definition calculateNewGameBoard_body :: "nat \<Rightarrow> nat \<Rightarrow> life_state \<Rightarrow> life_state option" where
  "calculateNewGameBoard_body row col s = do {
     numNeighbors \<leftarrow> countNeighbors s (of_nat row) (of_nat col);
     g \<leftarrow> arr_get (gameboard s) row;
     if bitRead g col \<noteq> 0 \<and> numNeighbors < 2
       then update_newgameboard row (\<lambda>n. bitClear n col) s
     else if bitRead g col \<noteq> 0 \<and> (numNeighbors = 2 \<or> numNeighbors = 3)
       then update_newgameboard row (\<lambda>n. bitSet n col) s
     else if bitRead g col \<noteq> 0 \<and> numNeighbors > 3
       then update_newgameboard row (\<lambda>n. bitClear n col) s
     else if \<not> (bitRead g col \<noteq> 0) \<and> numNeighbors = 3
       then update_newgameboard row (\<lambda>n. bitSet n col) s
     else update_newgameboard row (\<lambda>n. bitClear n col) s
   }"

definition calculateNewGameBoard :: "life_state \<Rightarrow> life_state option" where
  "calculateNewGameBoard s =
     for_each [0..<nat NUMROWS] (\<lambda>row.
       for_each [0..<nat NUMCOLS] (\<lambda>col.
         calculateNewGameBoard_body row col)) s"

subsection \<open>First sketch: display, seeding and the classification of a transition\<close>

definition setSprite :: "byte list \<Rightarrow> life_state \<Rightarrow> life_state option" where
  "setSprite sprite =
     for_each [0..<8] (\<lambda>r s. do {
       b \<leftarrow> arr_get sprite r;
       Some (s\<lparr>log := log s @ [SetColumn (7 - r) b]\<rparr>)
     })"

definition delay :: "nat \<Rightarrow> life_state \<Rightarrow> life_state" where
  "delay ms s = s\<lparr>log := log s @ [Delay ms]\<rparr>"

definition displayGameBoard :: "life_state \<Rightarrow> life_state option" where
  "displayGameBoard s = setSprite (gameboard s) s"

text \<open>
  What the sketch reads from outside during one call of \<open>setUpInitialBoard\<close>:
  the analog pins, and what \<open>randomSeed\<close> makes of the generator.
\<close>

record world =
  analogRead :: "nat \<Rightarrow> int"
  randomSeed :: "int \<Rightarrow> (nat \<Rightarrow> nat) \<Rightarrow> (nat \<Rightarrow> nat)"

definition RANDOMIZER_ANALOG_PIN :: nat where
  "RANDOMIZER_ANALOG_PIN = 4"

definition UNCONNECTED_ANALOG_PIN :: nat where
  "UNCONNECTED_ANALOG_PIN = 3"

text \<open>
  Modelled from the spec: \<open>random(min, max)\<close> belongs to the Arduino core and is not in
  the source file. The spec has it draw an integer from \<open>[min, max)\<close>; here the next raw
  value of the generator is reduced into that range and consumed.
\<close>

definition arduino_random :: "int \<Rightarrow> int \<Rightarrow> life_state \<Rightarrow> int \<times> life_state" where
  "arduino_random lo hi s =
     (lo + int (rng s 0) mod (hi - lo), s\<lparr>rng := (\<lambda>k. rng s (Suc k))\<rparr>)"

definition perturbInitialGameBoard_body :: "nat \<Rightarrow> life_state \<Rightarrow> life_state option" where
  "perturbInitialGameBoard_body i s =
     (let (row, s1) = arduino_random 0 NUMROWS s;
          (col, s2) = arduino_random 0 NUMCOLS s1
      in do {
        g \<leftarrow> arr_get (gameboard s2) (nat row);
        gb \<leftarrow> arr_set (gameboard s2) (nat row) (bitWrite g (nat col) (bitRead g (nat col) = 0));
        Some (s2\<lparr>gameboard := gb\<rparr>)
      })"

definition perturbInitialGameBoard :: "life_state \<Rightarrow> life_state option" where
  "perturbInitialGameBoard s =
     (let (numChanges, s1) = arduino_random 20 100 s
      in for_each [0..<nat numChanges] perturbInitialGameBoard_body s1)"

text \<open>\<open>USE_EEPROM\<close> is not defined, so the EEPROM branches are compiled out; the serial
  diagnostics do not touch the state and are left out.\<close>

definition setUpInitialBoard :: "world \<Rightarrow> life_state \<Rightarrow> life_state option" where
  "setUpInitialBoard w s =
     (let seed = analogRead w UNCONNECTED_ANALOG_PIN;
          randomizerPinValue = analogRead w RANDOMIZER_ANALOG_PIN
      in if randomizerPinValue > 900
           then perturbInitialGameBoard (s\<lparr>rng := randomSeed w seed (rng s)\<rparr>)
         else if randomizerPinValue > 300
           then perturbInitialGameBoard (s\<lparr>rng := randomSeed w seed (rng s)\<rparr>)
         else Some s)"

text \<open>The three locals of \<open>swapGameBoards\<close>; the model returns them with the state.\<close>

record verdict =
  stable :: bool
  dead :: bool
  repeat :: bool

definition swapGameBoards_body ::
  "nat \<Rightarrow> verdict \<times> life_state \<Rightarrow> (verdict \<times> life_state) option" where
  "swapGameBoards_body row = (\<lambda>(v, s). do {
     g \<leftarrow> arr_get (gameboard s) row;
     n \<leftarrow> arr_get (newgameboard s) row;
     old \<leftarrow> arr_get (oldgameboard s) row;
     let v1 = (if g \<noteq> n then v\<lparr>stable := False\<rparr> else v);
     let v2 = (if g \<noteq> 0 then v1\<lparr>dead := False\<rparr> else v1);
     let v3 = (if old \<noteq> n then v2\<lparr>repeat := False\<rparr> else v2);
     og \<leftarrow> arr_set (oldgameboard s) row g;
     gb \<leftarrow> arr_set (gameboard s) row n;
     Some (v3, s\<lparr>oldgameboard := og, gameboard := gb\<rparr>)
   })"

definition swapGameBoards_loop :: "life_state \<Rightarrow> (verdict \<times> life_state) option" where
  "swapGameBoards_loop s =
     for_each [0..<nat NUMROWS] swapGameBoards_body
       (\<lparr>stable = True, dead = True, repeat = True\<rparr>, s)"

definition swapGameBoards :: "world \<Rightarrow> life_state \<Rightarrow> (verdict \<times> life_state) option" where
  "swapGameBoards w s = do {
     (v, s1) \<leftarrow> swapGameBoards_loop s;
     s2 \<leftarrow> (if dead v
            then do { s' \<leftarrow> setSprite ij s1; Some (delay 1000 s') }
            else Some s1);
     s3 \<leftarrow> (if stable v \<or> repeat v
            then do {
              s' \<leftarrow> setUpInitialBoard w (delay 2000 s2);
              setSprite (gameboard s') s'
            }
            else Some s2);
     Some (v, s3)
   }"

text \<open>One pass of \<open>loop()\<close>, and the passes one after the other, each with the
  outside world it meets; the verdicts of the passes are collected.\<close>

definition loop :: "world \<Rightarrow> life_state \<Rightarrow> (verdict \<times> life_state) option" where
  "loop w s = do {
     s1 \<leftarrow> displayGameBoard s;
     s2 \<leftarrow> calculateNewGameBoard (delay 333 s1);
     swapGameBoards w s2
   }"

fun generations :: "world list \<Rightarrow> life_state \<Rightarrow> (verdict list \<times> life_state) option" where
  "generations [] s = Some ([], s)"
| "generations (w # ws) s = do {
     (v, s1) \<leftarrow> loop w s;
     (vs, s2) \<leftarrow> generations ws s1;
     Some (v # vs, s2)
   }"

subsection \<open>Second sketch: boards as grids of \<open>boolean\<close>\<close>

text \<open>
  \<open>gameboard_g\<close> is the byte array \<open>gameboard\<close> of the second sketch, which only
  holds the sprite sent to the display.
\<close>

record grid_state =
  gameBoard :: "bool list list"
  newGameBoard :: "bool list list"
  gameboard_g :: "byte list"
  rng_g :: "nat \<Rightarrow> nat"
  log_g :: "event list"

definition initial_grid_state :: "(nat \<Rightarrow> nat) \<Rightarrow> grid_state" where
  "initial_grid_state r =
     \<lparr>gameBoard =
        [[False, False, False, False, False, False, False, False],
         [False, False, True, True, False, False, False, False],
         [False, True, True, False, False, False, False, False],
         [False, False, True, False, False, False, False, False],
         [False, False, False, False, False, False, False, False],
         [False, False, False, False, False, False, False, False],
         [False, False, False, False, False, False, False, False],
         [False, False, False, False, False, False, False, False]],
      newGameBoard = replicate 8 (replicate 8 False),
      gameboard_g = ij,
      rng_g = r, log_g = []\<rparr>"

definition isCellAlive_g :: "grid_state \<Rightarrow> schar \<Rightarrow> schar \<Rightarrow> bool option" where
  "isCellAlive_g s row col =
     (if sint row < 0 \<or> sint col < 0 \<or> sint row \<ge> NUMROWS \<or> sint col \<ge> NUMCOLS
      then Some False
      else do {
        r \<leftarrow> arr_get (gameBoard s) (nat (sint row));
        g \<leftarrow> arr_get r (nat (sint col));
        Some (of_bool g = (1 :: int))
      })"

definition countNeighbors_body_g ::
  "grid_state \<Rightarrow> byte \<Rightarrow> byte \<Rightarrow> int \<Rightarrow> int \<Rightarrow> byte \<Rightarrow> byte option" where
  "countNeighbors_body_g s row col rowDelta colDelta count =
     (if \<not> (colDelta = 0 \<and> rowDelta = 0)
      then do {
        a \<leftarrow> isCellAlive_g s (to_char (rowDelta + uint row)) (to_char (colDelta + uint col));
        Some (if a then count + 1 else count)
      }
      else Some count)"

definition countNeighbors_g :: "grid_state \<Rightarrow> byte \<Rightarrow> byte \<Rightarrow> byte option" where
  "countNeighbors_g s row col =
     for_each [-1, 0, 1] (\<lambda>rowDelta.
       for_each [-1, 0, 1] (\<lambda>colDelta.
         countNeighbors_body_g s row col rowDelta colDelta)) 0"

definition set_newGameBoard :: "nat \<Rightarrow> nat \<Rightarrow> bool \<Rightarrow> grid_state \<Rightarrow> grid_state option" where
  "set_newGameBoard row col v s = do {
     r \<leftarrow> arr_get (newGameBoard s) row;
     r' \<leftarrow> arr_set r col v;
     Some (s\<lparr>newGameBoard := (newGameBoard s)[row := r']\<rparr>)
   }"

definition calculateNewGameBoard_body_g ::
  "nat \<Rightarrow> nat \<Rightarrow> grid_state \<Rightarrow> grid_state option" where
  "calculateNewGameBoard_body_g row col s = do {
     numNeighbors \<leftarrow> countNeighbors_g s (of_nat row) (of_nat col);
     r \<leftarrow> arr_get (gameBoard s) row;
     g \<leftarrow> arr_get r col;
     if g \<and> numNeighbors < 2
       then set_newGameBoard row col False s
     else if g \<and> (numNeighbors = 2 \<or> numNeighbors = 3)
       then set_newGameBoard row col True s
     else if g \<and> numNeighbors > 3
       then set_newGameBoard row col False s
     else if \<not> g \<and> numNeighbors = 3
       then set_newGameBoard row col True s
     else set_newGameBoard row col False s
   }"

definition calculateNewGameBoard_g :: "grid_state \<Rightarrow> grid_state option" where
  "calculateNewGameBoard_g s =
     for_each [0..<nat NUMROWS] (\<lambda>row.
       for_each [0..<nat NUMCOLS] (\<lambda>col.
         calculateNewGameBoard_body_g row col)) s"

definition setSprite_g :: "byte list \<Rightarrow> grid_state \<Rightarrow> grid_state option" where
  "setSprite_g sprite =
     for_each [0..<8] (\<lambda>r s. do {
       b \<leftarrow> arr_get sprite r;
       Some (s\<lparr>log_g := log_g s @ [SetColumn (7 - r) b]\<rparr>)
     })"

text \<open>
  The condition of \<open>displayGameBoard\<close> in the second sketch is \<open>gameBoard[x,y]\<close>:
  the comma operator evaluates \<open>x\<close>, discards it and yields \<open>y\<close>, so the expression is
  \<open>gameBoard[y]\<close>, a row of the grid, which as a condition is the address of that row
  compared with the null pointer.
\<close>

datatype pointer = Null | Row nat

definition comma :: "'a \<Rightarrow> 'b \<Rightarrow> 'b" where
  "comma x y = y"

definition row_address :: "grid_state \<Rightarrow> nat \<Rightarrow> pointer option" where
  "row_address s i = (if i < length (gameBoard s) then Some (Row i) else None)"

definition displayGameBoard_body :: "grid_state \<Rightarrow> nat \<Rightarrow> nat \<Rightarrow> byte \<Rightarrow> byte option" where
  "displayGameBoard_body s x y b = do {
     let b1 = push_bit 1 b;
     p \<leftarrow> row_address s (comma x y);
     Some (if p \<noteq> Null then b1 OR 1 else b1)
   }"

definition displayGameBoard_row :: "nat \<Rightarrow> grid_state \<Rightarrow> grid_state option" where
  "displayGameBoard_row x s = do {
     b \<leftarrow> for_each [0..<nat NUMCOLS] (displayGameBoard_body s x) 0;
     gb \<leftarrow> arr_set (gameboard_g s) x b;
     Some (s\<lparr>gameboard_g := gb\<rparr>)
   }"

definition displayGameBoard_g :: "grid_state \<Rightarrow> grid_state option" where
  "displayGameBoard_g s = do {
     s1 \<leftarrow> for_each [0..<nat NUMROWS] displayGameBoard_row s;
     setSprite_g (gameboard_g s1) s1
   }"

subsection \<open>Well-formed states and the reading of a board\<close>

text \<open>The arrays of both sketches are declared with eight rows (of eight columns).\<close>

definition boards_ok :: "life_state \<Rightarrow> bool" where
  "boards_ok s \<longleftrightarrow>
     length (gameboard s) = 8 \<and> length (newgameboard s) = 8 \<and> length (oldgameboard s) = 8"

definition grid8 :: "bool list list \<Rightarrow> bool" where
  "grid8 g \<longleftrightarrow> length g = 8 \<and> list_all (\<lambda>r. length r = 8) g"

definition grids_ok :: "grid_state \<Rightarrow> bool" where
  "grids_ok s \<longleftrightarrow> grid8 (gameBoard s) \<and> grid8 (newGameBoard s) \<and> length (gameboard_g s) = 8"

text \<open>The cell at a coordinate, dead outside the board, in either representation.\<close>

definition cell :: "byte list \<Rightarrow> int \<Rightarrow> int \<Rightarrow> bool" where
  "cell gb r c \<longleftrightarrow> 0 \<le> r \<and> r < 8 \<and> 0 \<le> c \<and> c < 8 \<and> bit (gb ! nat r) (nat c)"

definition cell_g :: "bool list list \<Rightarrow> int \<Rightarrow> int \<Rightarrow> bool" where
  "cell_g g r c \<longleftrightarrow> 0 \<le> r \<and> r < 8 \<and> 0 \<le> c \<and> c < 8 \<and> g ! nat r ! nat c"

text \<open>The number of alive cells among the eight around \<open>(r, c)\<close>.\<close>

definition neighbors :: "(int \<Rightarrow> int \<Rightarrow> bool) \<Rightarrow> int \<Rightarrow> int \<Rightarrow> nat" where
  "neighbors alive r c =
     of_bool (alive (r - 1) (c - 1)) + of_bool (alive (r - 1) c) + of_bool (alive (r - 1) (c + 1))
   + of_bool (alive r (c - 1)) + of_bool (alive r (c + 1))
   + of_bool (alive (r + 1) (c - 1)) + of_bool (alive (r + 1) c) + of_bool (alive (r + 1) (c + 1))"

text \<open>The decision table of the specification, first match wins.\<close>

definition life_table :: "bool \<Rightarrow> nat \<Rightarrow> bool" where
  "life_table alive n =
     (if alive \<and> n < 2 then False
      else if alive \<and> (n = 2 \<or> n = 3) then True
      else if alive \<and> n > 3 then False
      else if \<not> alive \<and> n = 3 then True
      else False)"

definition next_cell :: "(int \<Rightarrow> int \<Rightarrow> bool) \<Rightarrow> nat \<Rightarrow> nat \<Rightarrow> bool" where
  "next_cell alive r c = life_table (alive (int r) (int c)) (neighbors alive (int r) (int c))"

text \<open>
  The invariant of the two loops of \<open>calculateNewGameBoard\<close>, started in \<open>s0\<close>: before
  column \<open>k\<close> of row \<open>r\<close>, only the target board has changed, and its cells before
  \<open>(r, k)\<close> hold their successors.
\<close>

definition calc_inv :: "life_state \<Rightarrow> nat \<Rightarrow> nat \<Rightarrow> life_state \<Rightarrow> bool" where
  "calc_inv s0 r k t \<longleftrightarrow>
     gameboard t = gameboard s0 \<and> oldgameboard t = oldgameboard s0 \<and>
     rng t = rng s0 \<and> log t = log s0 \<and> length (newgameboard t) = 8 \<and>
     (\<forall>r' < 8. \<forall>c < 8. r' < r \<or> (r' = r \<and> c < k) \<longrightarrow>
        bit (newgameboard t ! r') c = next_cell (cell (gameboard s0)) r' c)"

definition calc_inv_g :: "grid_state \<Rightarrow> nat \<Rightarrow> nat \<Rightarrow> grid_state \<Rightarrow> bool" where
  "calc_inv_g s0 r k t \<longleftrightarrow>
     gameBoard t = gameBoard s0 \<and> gameboard_g t = gameboard_g s0 \<and>
     rng_g t = rng_g s0 \<and> log_g t = log_g s0 \<and> grid8 (newGameBoard t) \<and>
     (\<forall>r' < 8. \<forall>c < 8. r' < r \<or> (r' = r \<and> c < k) \<longrightarrow>
        newGameBoard t ! r' ! c = next_cell (cell_g (gameBoard s0)) r' c)"

text \<open>
  The invariant of the loop of \<open>swapGameBoards\<close>, started in \<open>s0\<close>: before row \<open>k\<close>,
  the rows above have been shifted, and each flag tells whether its comparison held on all
  of them.
\<close>

definition swap_inv :: "life_state \<Rightarrow> nat \<Rightarrow> verdict \<Rightarrow> life_state \<Rightarrow> bool" where
  "swap_inv s0 k v t \<longleftrightarrow>
     newgameboard t = newgameboard s0 \<and> rng t = rng s0 \<and> log t = log s0 \<and>
     length (gameboard t) = 8 \<and> length (oldgameboard t) = 8 \<and>
     (\<forall>r < 8. gameboard t ! r = (if r < k then newgameboard s0 ! r else gameboard s0 ! r)) \<and>
     (\<forall>r < 8. oldgameboard t ! r = (if r < k then gameboard s0 ! r else oldgameboard s0 ! r)) \<and>
     stable v = (\<forall>r < k. gameboard s0 ! r = newgameboard s0 ! r) \<and>
     dead v = (\<forall>r < k. gameboard s0 ! r = 0) \<and>
     repeat v = (\<forall>r < k. oldgameboard s0 ! r = newgameboard s0 ! r)"

text \<open>The successor of a board: what calculateNewGameBoard leaves in a fresh target.\<close>

definition advance :: "byte list \<Rightarrow> byte list option" where
  "advance gb =
     map_option newgameboard
       (calculateNewGameBoard
          \<lparr>gameboard = gb, newgameboard = [0, 0, 0, 0, 0, 0, 0, 0],
           oldgameboard = [0, 0, 0, 0, 0, 0, 0, 0], rng = (\<lambda>_. 0), log = []\<rparr>)"

text \<open>
  The classification of a transition in the words of the specification, read off the
  three boards before the shift: \<open>stable\<close> iff next is identical to current, \<open>dead\<close> iff
  every cell of current is dead, \<open>repeat\<close> iff next is identical to previous.
\<close>

definition classification :: "life_state \<Rightarrow> verdict" where
  "classification s =
     \<lparr>stable = (newgameboard s = gameboard s),
      dead = (gameboard s = [0, 0, 0, 0, 0, 0, 0, 0]),
      repeat = (newgameboard s = oldgameboard s)\<rparr>"

text \<open>What \<open>setSprite\<close> sends to the display.\<close>

definition sprite_events :: "byte list \<Rightarrow> event list" where
  "sprite_events sprite = map (\<lambda>r. SetColumn (7 - r) (sprite ! r)) [0..<8]"

text \<open>
  A blinker centred at \<open>(r, c)\<close>: three alive cells in row \<open>r\<close>, or three in column
  \<open>c\<close>; and the selector pin read low, so that \<open>setUpInitialBoard\<close> changes nothing.
\<close>

definition blinker_h :: "nat \<Rightarrow> nat \<Rightarrow> byte list" where
  "blinker_h r c = (replicate 8 0)[r := push_bit (c - 1) 7]"

definition blinker_v :: "nat \<Rightarrow> nat \<Rightarrow> byte list" where
  "blinker_v r c =
     (replicate 8 0)[r - 1 := push_bit c 1, r := push_bit c 1, r + 1 := push_bit c 1]"

definition selector_low :: "world \<Rightarrow> bool" where
  "selector_low w \<longleftrightarrow> analogRead w RANDOMIZER_ANALOG_PIN \<le> 300"

definition low_world :: world where
  "low_world = \<lparr>analogRead = (\<lambda>pin. 0), randomSeed = (\<lambda>seed g. g)\<rparr>"

definition blinker_state :: life_state where
  "blinker_state = (initial_state (\<lambda>k. 0))\<lparr>gameboard := blinker_h 3 3\<rparr>"

text \<open>A 2x2 block and a single cell away from the edges, and the all-dead grid.\<close>

definition block_state :: life_state where
  "block_state = (initial_state (\<lambda>k. 0))\<lparr>gameboard := [0, 0, 0x18, 0x18, 0, 0, 0, 0]\<rparr>"

definition single_cell :: "byte list" where
  "single_cell = [0, 0, 0, 0x08, 0, 0, 0, 0]"

definition dead_grid_state :: grid_state where
  "dead_grid_state =
     (initial_grid_state (\<lambda>k. 0))\<lparr>gameBoard := replicate 8 (replicate 8 False)\<rparr>"

section \<open>Basic facts\<close>

lemma for_each_append:
  "for_each (xs @ ys) body s =
     (case for_each xs body s of None \<Rightarrow> None | Some s' \<Rightarrow> for_each ys body s')"
  by (induction xs arbitrary: s) (auto split: option.splits)

lemma for_each_upt_invariant:
  assumes "P 0 s"
    and "\<And>i t. i < n \<Longrightarrow> P i t \<Longrightarrow> \<exists>t'. body i t = Some t' \<and> P (Suc i) t'"
  shows "\<exists>t. for_each [0..<n] body s = Some t \<and> P n t"
  using assms(2)
proof (induction n)
  case 0
  then show ?case using assms(1) by simp
next
  case (Suc n)
  then obtain t where t: "for_each [0..<n] body s = Some t" "P n t"
    by (metis less_Suc_eq)
  from Suc.prems [of n t] t obtain t' where "body n t = Some t'" "P (Suc n) t'"
    by auto
  with t show ?case
    by (simp add: for_each_append)
qed

lemma bitRead_eq_1: "bitRead v b = 1 \<longleftrightarrow> bit v b"
  unfolding bitRead_def
  by (simp add: and_one_eq bit_iff_odd_drop_bit mod_2_eq_odd)

lemma bitRead_ne_0: "bitRead v b \<noteq> 0 \<longleftrightarrow> bit v b"
  unfolding bitRead_def
  by (simp add: and_one_eq bit_iff_odd_drop_bit mod_2_eq_odd)

lemma bit_bitSet: "b < 8 \<Longrightarrow> bit (bitSet v b) n \<longleftrightarrow> n = b \<or> bit v n"
  unfolding bitSet_def
  by (auto simp add: bit_simps)

lemma bit_bitClear: "b < 8 \<Longrightarrow> bit (bitClear v b) n \<longleftrightarrow> n \<noteq> b \<and> bit v n"
  unfolding bitClear_def
  by (auto simp add: bit_simps dest: bit_imp_le_length)

lemma bit_bitWrite: "c < 8 \<Longrightarrow> bit (bitWrite n c x) j \<longleftrightarrow> (if j = c then x else bit n j)"
  by (simp add: bitWrite_def bit_bitSet bit_bitClear)

lemma sint_to_char: "- 128 \<le> i \<Longrightarrow> i < 128 \<Longrightarrow> sint (to_char i) = i"
  unfolding to_char_def
  by (simp add: sint_sbintrunc' signed_take_bit_int_eq_self)

lemma uint_of_nat_byte: "r < 256 \<Longrightarrow> uint (of_nat r :: byte) = int r"
  by (simp add: uint_nat unat_of_nat take_bit_nat_eq_self)

lemma neighbors_le: "neighbors alive r c \<le> 8"
  unfolding neighbors_def by (simp add: of_bool_def)

lemma unat_of_nat_neighbors: "unat (of_nat (neighbors alive r c) :: byte) = neighbors alive r c"
  using neighbors_le [of alive r c]
  by (simp add: unat_of_nat take_bit_nat_eq_self)

lemma byte_eqI:
  fixes v w :: byte
  assumes "\<And>n. n < 8 \<Longrightarrow> bit v n = bit w n"
  shows "v = w"
  by (rule bit_word_eqI) (use assms in simp)

section \<open>First sketch: neighbor count and generation advance\<close>

lemma isCellAlive_cell:
  "length (gameboard s) = 8 \<Longrightarrow>
   isCellAlive s row col = Some (cell (gameboard s) (sint row) (sint col))"
  by (auto simp add: isCellAlive_def cell_def NUMROWS_def NUMCOLS_def arr_get_def bitRead_eq_1)

lemma countNeighbors_body_cell:
  assumes "length (gameboard s) = 8" "r < 8" "c < 8"
    and "- 1 \<le> dr" "dr \<le> 1" "- 1 \<le> dc" "dc \<le> 1"
  shows "countNeighbors_body s (of_nat r) (of_nat c) dr dc count =
         Some (if dc = 0 \<and> dr = 0 then count
               else count + of_bool (cell (gameboard s) (int r + dr) (int c + dc)))"
proof -
  have u: "uint (of_nat r :: byte) = int r" "uint (of_nat c :: byte) = int c"
    using assms by (simp_all add: uint_of_nat_byte)
  have s: "sint (to_char (dr + int r)) = int r + dr" "sint (to_char (dc + int c)) = int c + dc"
    using assms by (simp_all add: sint_to_char)
  show ?thesis
    unfolding countNeighbors_body_def isCellAlive_cell [OF assms(1)] u s
    by simp
qed

lemma countNeighbors_neighbors:
  assumes "length (gameboard s) = 8" "r < 8" "c < 8"
  shows "countNeighbors s (of_nat r) (of_nat c) =
         Some (of_nat (neighbors (cell (gameboard s)) (int r) (int c)))"
proof -
  note b = countNeighbors_body_cell [OF assms]
  have "countNeighbors s (of_nat r) (of_nat c) =
        Some (0 + of_bool (cell (gameboard s) (int r + - 1) (int c + - 1))
                + of_bool (cell (gameboard s) (int r + - 1) (int c + 0))
                + of_bool (cell (gameboard s) (int r + - 1) (int c + 1))
                + of_bool (cell (gameboard s) (int r + 0) (int c + - 1))
                + of_bool (cell (gameboard s) (int r + 0) (int c + 1))
                + of_bool (cell (gameboard s) (int r + 1) (int c + - 1))
                + of_bool (cell (gameboard s) (int r + 1) (int c + 0))
                + of_bool (cell (gameboard s) (int r + 1) (int c + 1)))"
    unfolding countNeighbors_def
    by (simp add: b)
  also have "\<dots> = Some (of_nat (neighbors (cell (gameboard s)) (int r) (int c)))"
    unfolding neighbors_def by simp
  finally show ?thesis .
qed

lemma calculateNewGameBoard_body_write:
  assumes "countNeighbors t (of_nat r) (of_nat c) = Some w"
    and "arr_get (gameboard t) r = Some g"
  shows "calculateNewGameBoard_body r c t =
         update_newgameboard r (\<lambda>n. bitWrite n c (life_table (bit g c) (unat w))) t"
proof -
  have w: "w = 2 \<longleftrightarrow> unat w = 2" "w = 3 \<longleftrightarrow> unat w = 3"
    by (simp_all add: word_unat_eq_iff)
  show ?thesis
    unfolding calculateNewGameBoard_body_def assms bitRead_ne_0
    using w by (auto simp add: life_table_def bitWrite_def word_less_nat_alt)
qed

lemma calculateNewGameBoard_body_inv:
  assumes len: "length (gameboard s0) = 8" and r: "r < 8" and k: "k < 8"
    and inv: "calc_inv s0 r k t"
  shows "\<exists>t'. calculateNewGameBoard_body r k t = Some t' \<and> calc_inv s0 r (Suc k) t'"
proof -
  from inv have gb: "gameboard t = gameboard s0" and ln: "length (newgameboard t) = 8"
    by (simp_all add: calc_inv_def)
  have cn: "countNeighbors t (of_nat r) (of_nat k) =
            Some (of_nat (neighbors (cell (gameboard s0)) (int r) (int k)))"
    using countNeighbors_neighbors [of t r k] len r k gb by simp
  have ag: "arr_get (gameboard t) r = Some (gameboard s0 ! r)"
    using len r gb by (simp add: arr_get_def)
  have c: "cell (gameboard s0) (int r) (int k) = bit (gameboard s0 ! r) k"
    using r k by (simp add: cell_def)
  define t' where "t' = t\<lparr>newgameboard := (newgameboard t)
      [r := bitWrite (newgameboard t ! r) k (next_cell (cell (gameboard s0)) r k)]\<rparr>"
  have "calculateNewGameBoard_body r k t = Some t'"
    unfolding calculateNewGameBoard_body_write [OF cn ag] update_newgameboard_def t'_def
    using ln r by (simp add: arr_get_def next_cell_def unat_of_nat_neighbors c)
  moreover have "calc_inv s0 r (Suc k) t'"
    using inv r k unfolding calc_inv_def t'_def
    by (auto simp add: nth_list_update bit_bitWrite less_Suc_eq)
  ultimately show ?thesis by blast
qed

lemma calculateNewGameBoard_row_inv:
  assumes len: "length (gameboard s0) = 8" and r: "r < 8"
    and inv: "calc_inv s0 r 0 t"
  shows "\<exists>t'. for_each [0..<nat NUMCOLS] (\<lambda>col. calculateNewGameBoard_body r col) t = Some t'
           \<and> calc_inv s0 (Suc r) 0 t'"
proof -
  have "\<exists>t'. for_each [0..<8] (\<lambda>col. calculateNewGameBoard_body r col) t = Some t'
           \<and> calc_inv s0 r 8 t'"
    by (rule for_each_upt_invariant [where P = "calc_inv s0 r"])
       (use inv calculateNewGameBoard_body_inv [OF len r] in auto)
  moreover have "calc_inv s0 (Suc r) 0 t'" if "calc_inv s0 r 8 t'" for t'
    using that unfolding calc_inv_def by (auto simp add: less_Suc_eq)
  ultimately show ?thesis
    by (auto simp add: NUMCOLS_def)
qed

lemma calculateNewGameBoard_inv:
  assumes "length (gameboard s) = 8" "length (newgameboard s) = 8"
  shows "\<exists>t. calculateNewGameBoard s = Some t \<and> calc_inv s 8 0 t"
proof -
  have "calc_inv s 0 0 s"
    using assms by (simp add: calc_inv_def)
  then have "\<exists>t. for_each [0..<8] (\<lambda>row.
       for_each [0..<nat NUMCOLS] (\<lambda>col. calculateNewGameBoard_body row col)) s = Some t
       \<and> calc_inv s 8 0 t"
    by (intro for_each_upt_invariant [where P = "\<lambda>r. calc_inv s r 0"])
       (use calculateNewGameBoard_row_inv [OF assms(1)] in auto)
  then show ?thesis
    by (simp add: calculateNewGameBoard_def NUMROWS_def)
qed

section \<open>Second sketch: neighbor count and generation advance\<close>

lemma grid8_nth: "grid8 g \<Longrightarrow> r < 8 \<Longrightarrow> length (g ! r) = 8"
  by (simp add: grid8_def list_all_length)

lemma isCellAlive_g_cell:
  "grid8 (gameBoard s) \<Longrightarrow>
   isCellAlive_g s row col = Some (cell_g (gameBoard s) (sint row) (sint col))"
  by (auto simp add: isCellAlive_g_def cell_g_def NUMROWS_def NUMCOLS_def arr_get_def
      grid8_def list_all_length)

lemma countNeighbors_body_g_cell:
  assumes "grid8 (gameBoard s)" "r < 8" "c < 8"
    and "- 1 \<le> dr" "dr \<le> 1" "- 1 \<le> dc" "dc \<le> 1"
  shows "countNeighbors_body_g s (of_nat r) (of_nat c) dr dc count =
         Some (if dc = 0 \<and> dr = 0 then count
               else count + of_bool (cell_g (gameBoard s) (int r + dr) (int c + dc)))"
proof -
  have u: "uint (of_nat r :: byte) = int r" "uint (of_nat c :: byte) = int c"
    using assms by (simp_all add: uint_of_nat_byte)
  have s: "sint (to_char (dr + int r)) = int r + dr" "sint (to_char (dc + int c)) = int c + dc"
    using assms by (simp_all add: sint_to_char)
  show ?thesis
    unfolding countNeighbors_body_g_def isCellAlive_g_cell [OF assms(1)] u s
    by simp
qed

lemma countNeighbors_g_neighbors:
  assumes "grid8 (gameBoard s)" "r < 8" "c < 8"
  shows "countNeighbors_g s (of_nat r) (of_nat c) =
         Some (of_nat (neighbors (cell_g (gameBoard s)) (int r) (int c)))"
proof -
  note b = countNeighbors_body_g_cell [OF assms]
  have "countNeighbors_g s (of_nat r) (of_nat c) =
        Some (0 + of_bool (cell_g (gameBoard s) (int r + - 1) (int c + - 1))
                + of_bool (cell_g (gameBoard s) (int r + - 1) (int c + 0))
                + of_bool (cell_g (gameBoard s) (int r + - 1) (int c + 1))
                + of_bool (cell_g (gameBoard s) (int r + 0) (int c + - 1))
                + of_bool (cell_g (gameBoard s) (int r + 0) (int c + 1))
                + of_bool (cell_g (gameBoard s) (int r + 1) (int c + - 1))
                + of_bool (cell_g (gameBoard s) (int r + 1) (int c + 0))
                + of_bool (cell_g (gameBoard s) (int r + 1) (int c + 1)))"
    unfolding countNeighbors_g_def
    by (simp add: b)
  also have "\<dots> = Some (of_nat (neighbors (cell_g (gameBoard s)) (int r) (int c)))"
    unfolding neighbors_def by simp
  finally show ?thesis .
qed

lemma calculateNewGameBoard_body_g_write:
  assumes "countNeighbors_g t (of_nat r) (of_nat c) = Some w"
    and "arr_get (gameBoard t) r = Some row" and "arr_get row c = Some g"
  shows "calculateNewGameBoard_body_g r c t =
         set_newGameBoard r c (life_table g (unat w)) t"
proof -
  have w: "w = 2 \<longleftrightarrow> unat w = 2" "w = 3 \<longleftrightarrow> unat w = 3"
    by (simp_all add: word_unat_eq_iff)
  show ?thesis
    using w
    by (auto simp add: calculateNewGameBoard_body_g_def assms life_table_def
        word_less_nat_alt)
qed

lemma grid8_update:
  "grid8 g \<Longrightarrow> r < 8 \<Longrightarrow> grid8 (g[r := (g ! r)[c := v]])"
  by (auto simp add: grid8_def list_all_length nth_list_update)

lemma calculateNewGameBoard_body_g_inv:
  assumes len: "grid8 (gameBoard s0)" and r: "r < 8" and k: "k < 8"
    and inv: "calc_inv_g s0 r k t"
  shows "\<exists>t'. calculateNewGameBoard_body_g r k t = Some t' \<and> calc_inv_g s0 r (Suc k) t'"
proof -
  from inv have gb: "gameBoard t = gameBoard s0" and ln: "grid8 (newGameBoard t)"
    by (simp_all add: calc_inv_g_def)
  have cn: "countNeighbors_g t (of_nat r) (of_nat k) =
            Some (of_nat (neighbors (cell_g (gameBoard s0)) (int r) (int k)))"
    using countNeighbors_g_neighbors [of t r k] len r k gb by simp
  have ag: "arr_get (gameBoard t) r = Some (gameBoard s0 ! r)"
    using len r gb by (simp add: arr_get_def grid8_def)
  have ac: "arr_get (gameBoard s0 ! r) k = Some (gameBoard s0 ! r ! k)"
    using grid8_nth [OF len r] k by (simp add: arr_get_def)
  have c: "cell_g (gameBoard s0) (int r) (int k) = gameBoard s0 ! r ! k"
    using r k by (simp add: cell_g_def)
  define t' where "t' = t\<lparr>newGameBoard := (newGameBoard t)
      [r := (newGameBoard t ! r)[k := next_cell (cell_g (gameBoard s0)) r k]]\<rparr>"
  have l8: "length (newGameBoard t) = 8" "length (newGameBoard t ! r) = 8"
    using ln grid8_nth [OF ln r] by (simp_all add: grid8_def)
  have "calculateNewGameBoard_body_g r k t = Some t'"
    unfolding calculateNewGameBoard_body_g_write [OF cn ag ac] set_newGameBoard_def t'_def
    using l8 r k by (simp add: arr_get_def arr_set_def next_cell_def unat_of_nat_neighbors c)
  moreover have "calc_inv_g s0 r (Suc k) t'"
    using inv r k l8 grid8_update [OF ln r] unfolding calc_inv_g_def t'_def
    by (auto simp add: nth_list_update less_Suc_eq)
  ultimately show ?thesis by blast
qed

lemma calculateNewGameBoard_row_g_inv:
  assumes len: "grid8 (gameBoard s0)" and r: "r < 8"
    and inv: "calc_inv_g s0 r 0 t"
  shows "\<exists>t'. for_each [0..<nat NUMCOLS] (\<lambda>col. calculateNewGameBoard_body_g r col) t = Some t'
           \<and> calc_inv_g s0 (Suc r) 0 t'"
proof -
  have "\<exists>t'. for_each [0..<8] (\<lambda>col. calculateNewGameBoard_body_g r col) t = Some t'
           \<and> calc_inv_g s0 r 8 t'"
    by (rule for_each_upt_invariant [where P = "calc_inv_g s0 r"])
       (use inv calculateNewGameBoard_body_g_inv [OF len r] in auto)
  moreover have "calc_inv_g s0 (Suc r) 0 t'" if "calc_inv_g s0 r 8 t'" for t'
    using that unfolding calc_inv_g_def by (auto simp add: less_Suc_eq)
  ultimately show ?thesis
    by (auto simp add: NUMCOLS_def)
qed

lemma calculateNewGameBoard_g_inv:
  assumes "grid8 (gameBoard s)" "grid8 (newGameBoard s)"
  shows "\<exists>t. calculateNewGameBoard_g s = Some t \<and> calc_inv_g s 8 0 t"
proof -
  have "calc_inv_g s 0 0 s"
    using assms by (simp add: calc_inv_g_def)
  then have "\<exists>t. for_each [0..<8] (\<lambda>row.
       for_each [0..<nat NUMCOLS] (\<lambda>col. calculateNewGameBoard_body_g row col)) s = Some t
       \<and> calc_inv_g s 8 0 t"
    by (intro for_each_upt_invariant [where P = "\<lambda>r. calc_inv_g s r 0"])
       (use calculateNewGameBoard_row_g_inv [OF assms(1)] in auto)
  then show ?thesis
    by (simp add: calculateNewGameBoard_g_def NUMROWS_def)
qed

section \<open>What one call of calculateNewGameBoard leaves behind\<close>

lemma calc_inv_newgameboard_unique:
  assumes "calc_inv s1 8 0 t1" "calc_inv s2 8 0 t2" "gameboard s1 = gameboard s2"
  shows "newgameboard t1 = newgameboard t2"
proof (rule nth_equalityI)
  show "length (newgameboard t1) = length (newgameboard t2)"
    using assms by (simp add: calc_inv_def)
next
  fix r assume "r < length (newgameboard t1)"
  then have r: "r < 8" using assms(1) by (simp add: calc_inv_def)
  show "newgameboard t1 ! r = newgameboard t2 ! r"
  proof (rule byte_eqI)
    fix c :: nat assume "c < 8"
    with r assms show "bit (newgameboard t1 ! r) c = bit (newgameboard t2 ! r) c"
      by (simp add: calc_inv_def)
  qed
qed

lemma calc_inv_g_newGameBoard_unique:
  assumes "calc_inv_g s1 8 0 t1" "calc_inv_g s2 8 0 t2" "gameBoard s1 = gameBoard s2"
  shows "newGameBoard t1 = newGameBoard t2"
proof (rule nth_equalityI)
  show "length (newGameBoard t1) = length (newGameBoard t2)"
    using assms by (simp add: calc_inv_g_def grid8_def)
next
  fix r assume "r < length (newGameBoard t1)"
  then have r: "r < 8" using assms(1) by (simp add: calc_inv_g_def grid8_def)
  have g: "grid8 (newGameBoard t1)" "grid8 (newGameBoard t2)"
    using assms by (simp_all add: calc_inv_g_def)
  show "newGameBoard t1 ! r = newGameBoard t2 ! r"
  proof (rule nth_equalityI)
    show "length (newGameBoard t1 ! r) = length (newGameBoard t2 ! r)"
      using g r by (simp add: grid8_nth)
  next
    fix c assume "c < length (newGameBoard t1 ! r)"
    then have "c < 8" using g r by (simp add: grid8_nth)
    with r assms show "newGameBoard t1 ! r ! c = newGameBoard t2 ! r ! c"
      by (simp add: calc_inv_g_def)
  qed
qed

text \<open>
  C1. For every 8x8 board (either sketch) and every cell \<open>(r, c)\<close>, calculateNewGameBoard
  returns, and the successor cell it leaves in the target board is the entry of the Life
  decision table for the current cell and \<open>n = countNeighbors(r, c)\<close>.
\<close>

theorem calculateNewGameBoard_decision_table:
  assumes "boards_ok s" and "grids_ok g" and "r < 8" and "c < 8"
  shows "(\<exists>t n. calculateNewGameBoard s = Some t
            \<and> countNeighbors s (of_nat r) (of_nat c) = Some n
            \<and> bit (newgameboard t ! r) c = life_table (bit (gameboard s ! r) c) (unat n))
       \<and> (\<exists>t n. calculateNewGameBoard_g g = Some t
            \<and> countNeighbors_g g (of_nat r) (of_nat c) = Some n
            \<and> newGameBoard t ! r ! c = life_table (gameBoard g ! r ! c) (unat n))"
proof
  from assms(1) have len: "length (gameboard s) = 8" "length (newgameboard s) = 8"
    by (simp_all add: boards_ok_def)
  from calculateNewGameBoard_inv [OF len] obtain t
    where t: "calculateNewGameBoard s = Some t" "calc_inv s 8 0 t" by blast
  have "bit (newgameboard t ! r) c = next_cell (cell (gameboard s)) r c"
    using t(2) assms(3,4) by (simp add: calc_inv_def)
  then have "bit (newgameboard t ! r) c =
      life_table (bit (gameboard s ! r) c)
        (unat (of_nat (neighbors (cell (gameboard s)) (int r) (int c)) :: byte))"
    using assms(3,4) by (simp add: next_cell_def cell_def unat_of_nat_neighbors)
  with t(1) countNeighbors_neighbors [OF len(1) assms(3,4)]
  show "\<exists>t n. calculateNewGameBoard s = Some t
            \<and> countNeighbors s (of_nat r) (of_nat c) = Some n
            \<and> bit (newgameboard t ! r) c = life_table (bit (gameboard s ! r) c) (unat n)"
    by blast
next
  from assms(2) have len: "grid8 (gameBoard g)" "grid8 (newGameBoard g)"
    by (simp_all add: grids_ok_def)
  from calculateNewGameBoard_g_inv [OF len] obtain t
    where t: "calculateNewGameBoard_g g = Some t" "calc_inv_g g 8 0 t" by blast
  have "newGameBoard t ! r ! c = next_cell (cell_g (gameBoard g)) r c"
    using t(2) assms(3,4) by (simp add: calc_inv_g_def)
  then have "newGameBoard t ! r ! c =
      life_table (gameBoard g ! r ! c)
        (unat (of_nat (neighbors (cell_g (gameBoard g)) (int r) (int c)) :: byte))"
    using assms(3,4) by (simp add: next_cell_def cell_g_def unat_of_nat_neighbors)
  with t(1) countNeighbors_g_neighbors [OF len(1) assms(3,4)]
  show "\<exists>t n. calculateNewGameBoard_g g = Some t
            \<and> countNeighbors_g g (of_nat r) (of_nat c) = Some n
            \<and> newGameBoard t ! r ! c = life_table (gameBoard g ! r ! c) (unat n)"
    by blast
qed

theorem calculateNewGameBoard_decision_table_witness:
  "boards_ok (initial_state (\<lambda>_. 0)) \<and> grids_ok (initial_grid_state (\<lambda>_. 0))
   \<and> (\<exists>t n. calculateNewGameBoard (initial_state (\<lambda>_. 0)) = Some t
         \<and> countNeighbors (initial_state (\<lambda>_. 0)) 1 6 = Some n
         \<and> bit (newgameboard t ! 1) 6 = life_table False (unat n))
   \<and> (\<exists>t n. calculateNewGameBoard_g (initial_grid_state (\<lambda>_. 0)) = Some t
         \<and> countNeighbors_g (initial_grid_state (\<lambda>_. 0)) 1 1 = Some n
         \<and> newGameBoard t ! 1 ! 1 = life_table False (unat n))"
proof -
  have a: "boards_ok (initial_state (\<lambda>_. 0))"
    by (simp add: boards_ok_def initial_state_def initial_gameboard_def)
  have b: "grids_ok (initial_grid_state (\<lambda>_. 0))"
    by (simp add: grids_ok_def grid8_def initial_grid_state_def ij_def list_all_iff)
  have c: "bit (gameboard (initial_state (\<lambda>_. 0)) ! 1) 6 = False"
    "gameBoard (initial_grid_state (\<lambda>_. 0)) ! 1 ! 1 = False"
    by (simp_all add: initial_state_def initial_gameboard_def initial_grid_state_def)
  show ?thesis
    using calculateNewGameBoard_decision_table [OF a b, of 1 6]
      calculateNewGameBoard_decision_table [OF a b, of 1 1] a b c
    by simp
qed

lemma replicate_8: "replicate 8 x = [x, x, x, x, x, x, x, x]"
  by (simp add: eval_nat_numeral)

text \<open>
  C4. For every board, countNeighbors(0,0) returns the number of alive cells among
  \<open>(0,1)\<close>, \<open>(1,0)\<close> and \<open>(1,1)\<close> only: the five neighbors outside the board count
  nothing, no cell of row 7 or column 7 is read, and the result is at most 3.
\<close>

theorem countNeighbors_corner:
  assumes "boards_ok s"
  shows "\<exists>n. countNeighbors s 0 0 = Some n
           \<and> unat n = of_bool (bit (gameboard s ! 0) 1) + of_bool (bit (gameboard s ! 1) 0)
                      + of_bool (bit (gameboard s ! 1) 1)
           \<and> unat n \<le> 3"
proof -
  from assms have len: "length (gameboard s) = 8"
    by (simp add: boards_ok_def)
  have "countNeighbors s (of_nat 0) (of_nat 0) =
        Some (of_nat (neighbors (cell (gameboard s)) (int 0) (int 0)))"
    by (rule countNeighbors_neighbors [OF len]) simp_all
  moreover have "neighbors (cell (gameboard s)) 0 0 =
      of_bool (bit (gameboard s ! 0) 1) + of_bool (bit (gameboard s ! 1) 0)
      + of_bool (bit (gameboard s ! 1) 1)"
    by (simp add: neighbors_def cell_def)
  moreover have "of_bool (bit (gameboard s ! 0) 1) + of_bool (bit (gameboard s ! 1) 0)
      + of_bool (bit (gameboard s ! 1) 1) \<le> (3 :: nat)"
    by (simp add: of_bool_def)
  ultimately show ?thesis
    using unat_of_nat_neighbors [of "cell (gameboard s)" 0 0] by simp
qed

theorem countNeighbors_corner_witness:
  "boards_ok (initial_state (\<lambda>_. 0)\<lparr>gameboard := [0x02, 0x83, 0, 0, 0, 0, 0, 0xFF]\<rparr>)
   \<and> (\<exists>n. countNeighbors
             (initial_state (\<lambda>_. 0)\<lparr>gameboard := [0x02, 0x83, 0, 0, 0, 0, 0, 0xFF]\<rparr>) 0 0 = Some n
         \<and> unat n = 3 \<and> unat n \<le> 3)"
proof -
  have a: "boards_ok (initial_state (\<lambda>_. 0)\<lparr>gameboard := [0x02, 0x83, 0, 0, 0, 0, 0, 0xFF]\<rparr>)"
    by (simp add: boards_ok_def initial_state_def)
  show ?thesis
    using countNeighbors_corner [OF a] a by (simp add: numeral_3_eq_3)
qed

text \<open>
  C5. isCellAlive (either sketch) returns false, without reading the board, for every
  coordinate with \<open>row < 0\<close>, \<open>col < 0\<close>, \<open>row \<ge> 8\<close> or \<open>col \<ge> 8\<close>; for every
  coordinate inside the board it returns the stored cell.
\<close>

theorem isCellAlive_range:
  "(sint row < 0 \<or> sint col < 0 \<or> sint row \<ge> 8 \<or> sint col \<ge> 8 \<longrightarrow>
      isCellAlive s row col = Some False \<and> isCellAlive_g g row col = Some False)
   \<and> (boards_ok s \<and> grids_ok g \<and> 0 \<le> sint row \<and> sint row < 8 \<and> 0 \<le> sint col \<and> sint col < 8 \<longrightarrow>
      isCellAlive s row col = Some (bit (gameboard s ! nat (sint row)) (nat (sint col)))
      \<and> isCellAlive_g g row col = Some (gameBoard g ! nat (sint row) ! nat (sint col)))"
proof (intro conjI impI)
  assume "sint row < 0 \<or> sint col < 0 \<or> sint row \<ge> 8 \<or> sint col \<ge> 8"
  then show "isCellAlive s row col = Some False" "isCellAlive_g g row col = Some False"
    by (auto simp add: isCellAlive_def isCellAlive_g_def NUMROWS_def NUMCOLS_def)
next
  assume a: "boards_ok s \<and> grids_ok g \<and> 0 \<le> sint row \<and> sint row < 8 \<and> 0 \<le> sint col \<and> sint col < 8"
  then have "length (gameboard s) = 8" "grid8 (gameBoard g)"
    by (simp_all add: boards_ok_def grids_ok_def)
  with a show "isCellAlive s row col = Some (bit (gameboard s ! nat (sint row)) (nat (sint col)))"
    "isCellAlive_g g row col = Some (gameBoard g ! nat (sint row) ! nat (sint col))"
    by (simp_all add: isCellAlive_cell isCellAlive_g_cell cell_def cell_g_def)
qed

theorem isCellAlive_range_witness:
  "(sint (- 1 :: schar) < 0
     \<and> isCellAlive (initial_state (\<lambda>_. 0)) (- 1) 9 = Some False
     \<and> isCellAlive_g (initial_grid_state (\<lambda>_. 0)) (- 1) 9 = Some False)
   \<and> (boards_ok (initial_state (\<lambda>_. 0)) \<and> grids_ok (initial_grid_state (\<lambda>_. 0))
     \<and> 0 \<le> sint (1 :: schar) \<and> sint (1 :: schar) < 8 \<and> 0 \<le> sint (5 :: schar) \<and> sint (5 :: schar) < 8
     \<and> isCellAlive (initial_state (\<lambda>_. 0)) 1 5 = Some True
     \<and> isCellAlive_g (initial_grid_state (\<lambda>_. 0)) 1 5 = Some False)"
proof -
  have a: "boards_ok (initial_state (\<lambda>_. 0))"
    by (simp add: boards_ok_def initial_state_def initial_gameboard_def)
  have b: "grids_ok (initial_grid_state (\<lambda>_. 0))"
    by (simp add: grids_ok_def grid8_def initial_grid_state_def ij_def list_all_iff)
  have c: "bit (gameboard (initial_state (\<lambda>_. 0)) ! 1) 5 = True"
    "gameBoard (initial_grid_state (\<lambda>_. 0)) ! 1 ! 5 = False"
    by (simp_all add: initial_state_def initial_gameboard_def initial_grid_state_def)
  show ?thesis
    using isCellAlive_range [of "- 1" 9 "initial_state (\<lambda>_. 0)" "initial_grid_state (\<lambda>_. 0)"]
      isCellAlive_range [of 1 5 "initial_state (\<lambda>_. 0)" "initial_grid_state (\<lambda>_. 0)"] a b c
    by simp
qed

text \<open>
  C7. calculateNewGameBoard (either sketch) returns for every well-formed state, and
  leaves the current board, the previous board, the random generator and the display log
  as they were: only the target board is written.
\<close>

theorem calculateNewGameBoard_frame:
  assumes "boards_ok s" and "grids_ok g"
  shows "(\<exists>t. calculateNewGameBoard s = Some t
            \<and> gameboard t = gameboard s \<and> oldgameboard t = oldgameboard s
            \<and> rng t = rng s \<and> log t = log s)
       \<and> (\<exists>t. calculateNewGameBoard_g g = Some t
            \<and> gameBoard t = gameBoard g \<and> gameboard_g t = gameboard_g g
            \<and> rng_g t = rng_g g \<and> log_g t = log_g g)"
proof
  from assms(1) have "length (gameboard s) = 8" "length (newgameboard s) = 8"
    by (simp_all add: boards_ok_def)
  from calculateNewGameBoard_inv [OF this]
  show "\<exists>t. calculateNewGameBoard s = Some t
            \<and> gameboard t = gameboard s \<and> oldgameboard t = oldgameboard s
            \<and> rng t = rng s \<and> log t = log s"
    by (auto simp add: calc_inv_def)
next
  from assms(2) have "grid8 (gameBoard g)" "grid8 (newGameBoard g)"
    by (simp_all add: grids_ok_def)
  from calculateNewGameBoard_g_inv [OF this]
  show "\<exists>t. calculateNewGameBoard_g g = Some t
            \<and> gameBoard t = gameBoard g \<and> gameboard_g t = gameboard_g g
            \<and> rng_g t = rng_g g \<and> log_g t = log_g g"
    by (auto simp add: calc_inv_g_def)
qed

theorem calculateNewGameBoard_frame_witness:
  "boards_ok (initial_state (\<lambda>_. 0)) \<and> grids_ok (initial_grid_state (\<lambda>_. 0))
   \<and> (\<exists>t. calculateNewGameBoard (initial_state (\<lambda>_. 0)) = Some t
         \<and> gameboard t = initial_gameboard \<and> oldgameboard t = [0, 0, 0, 0, 0, 0, 0, 0]
         \<and> log t = [])
   \<and> (\<exists>t. calculateNewGameBoard_g (initial_grid_state (\<lambda>_. 0)) = Some t
         \<and> gameBoard t = gameBoard (initial_grid_state (\<lambda>_. 0)) \<and> gameboard_g t = ij
         \<and> log_g t = [])"
proof -
  have a: "boards_ok (initial_state (\<lambda>_. 0))"
    by (simp add: boards_ok_def initial_state_def initial_gameboard_def)
  have b: "grids_ok (initial_grid_state (\<lambda>_. 0))"
    by (simp add: grids_ok_def grid8_def initial_grid_state_def ij_def list_all_iff)
  have c: "gameboard (initial_state (\<lambda>_. 0)) = initial_gameboard"
    "oldgameboard (initial_state (\<lambda>_. 0)) = [0, 0, 0, 0, 0, 0, 0, 0]"
    "log (initial_state (\<lambda>_. 0)) = []"
    "gameboard_g (initial_grid_state (\<lambda>_. 0)) = ij" "log_g (initial_grid_state (\<lambda>_. 0)) = []"
    by (simp_all add: initial_state_def initial_grid_state_def)
  show ?thesis
    using calculateNewGameBoard_frame [OF a b] a b unfolding c
    by blast
qed

text \<open>
  C9. The successor board does not depend on what the target board held before: two runs
  of calculateNewGameBoard (either sketch) from the same current board leave the same
  target board, whatever the two target boards were.
\<close>

theorem calculateNewGameBoard_overwrites_target:
  assumes "boards_ok s1" and "boards_ok s2" and "gameboard s1 = gameboard s2"
    and "grids_ok g1" and "grids_ok g2" and "gameBoard g1 = gameBoard g2"
  shows "(\<exists>t1 t2. calculateNewGameBoard s1 = Some t1 \<and> calculateNewGameBoard s2 = Some t2
            \<and> newgameboard t1 = newgameboard t2)
       \<and> (\<exists>t1 t2. calculateNewGameBoard_g g1 = Some t1 \<and> calculateNewGameBoard_g g2 = Some t2
            \<and> newGameBoard t1 = newGameBoard t2)"
proof
  from assms(1,2) have len:
    "length (gameboard s1) = 8" "length (newgameboard s1) = 8"
    "length (gameboard s2) = 8" "length (newgameboard s2) = 8"
    by (simp_all add: boards_ok_def)
  from calculateNewGameBoard_inv [OF len(1,2)] obtain t1
    where t1: "calculateNewGameBoard s1 = Some t1" "calc_inv s1 8 0 t1" by blast
  from calculateNewGameBoard_inv [OF len(3,4)] obtain t2
    where t2: "calculateNewGameBoard s2 = Some t2" "calc_inv s2 8 0 t2" by blast
  from calc_inv_newgameboard_unique [OF t1(2) t2(2) assms(3)] t1(1) t2(1)
  show "\<exists>t1 t2. calculateNewGameBoard s1 = Some t1 \<and> calculateNewGameBoard s2 = Some t2
            \<and> newgameboard t1 = newgameboard t2"
    by blast
next
  from assms(4,5) have len:
    "grid8 (gameBoard g1)" "grid8 (newGameBoard g1)"
    "grid8 (gameBoard g2)" "grid8 (newGameBoard g2)"
    by (simp_all add: grids_ok_def)
  from calculateNewGameBoard_g_inv [OF len(1,2)] obtain t1
    where t1: "calculateNewGameBoard_g g1 = Some t1" "calc_inv_g g1 8 0 t1" by blast
  from calculateNewGameBoard_g_inv [OF len(3,4)] obtain t2
    where t2: "calculateNewGameBoard_g g2 = Some t2" "calc_inv_g g2 8 0 t2" by blast
  from calc_inv_g_newGameBoard_unique [OF t1(2) t2(2) assms(6)] t1(1) t2(1)
  show "\<exists>t1 t2. calculateNewGameBoard_g g1 = Some t1 \<and> calculateNewGameBoard_g g2 = Some t2
            \<and> newGameBoard t1 = newGameBoard t2"
    by blast
qed

theorem calculateNewGameBoard_overwrites_target_witness:
  "boards_ok (initial_state (\<lambda>_. 0))
   \<and> boards_ok (initial_state (\<lambda>_. 0)\<lparr>newgameboard := replicate 8 0xFF\<rparr>)
   \<and> newgameboard (initial_state (\<lambda>_. 0)) \<noteq> replicate 8 0xFF
   \<and> grids_ok (initial_grid_state (\<lambda>_. 0))
   \<and> grids_ok (initial_grid_state (\<lambda>_. 0)\<lparr>newGameBoard := replicate 8 (replicate 8 True)\<rparr>)
   \<and> newGameBoard (initial_grid_state (\<lambda>_. 0)) \<noteq> replicate 8 (replicate 8 True)
   \<and> (\<exists>t1 t2. calculateNewGameBoard (initial_state (\<lambda>_. 0)) = Some t1
         \<and> calculateNewGameBoard (initial_state (\<lambda>_. 0)\<lparr>newgameboard := replicate 8 0xFF\<rparr>)
             = Some t2
         \<and> newgameboard t1 = newgameboard t2)
   \<and> (\<exists>t1 t2. calculateNewGameBoard_g (initial_grid_state (\<lambda>_. 0)) = Some t1
         \<and> calculateNewGameBoard_g
               (initial_grid_state (\<lambda>_. 0)\<lparr>newGameBoard := replicate 8 (replicate 8 True)\<rparr>)
             = Some t2
         \<and> newGameBoard t1 = newGameBoard t2)"
proof -
  have a: "boards_ok (initial_state (\<lambda>_. 0))"
    "boards_ok (initial_state (\<lambda>_. 0)\<lparr>newgameboard := replicate 8 0xFF\<rparr>)"
    by (simp_all add: boards_ok_def initial_state_def initial_gameboard_def)
  have b: "grids_ok (initial_grid_state (\<lambda>_. 0))"
    "grids_ok (initial_grid_state (\<lambda>_. 0)\<lparr>newGameBoard := replicate 8 (replicate 8 True)\<rparr>)"
    by (simp_all add: grids_ok_def grid8_def initial_grid_state_def ij_def list_all_iff)
  have c: "newgameboard (initial_state (\<lambda>_. 0)) \<noteq> replicate 8 0xFF"
    "newGameBoard (initial_grid_state (\<lambda>_. 0)) \<noteq> replicate 8 (replicate 8 True)"
    by (simp_all add: initial_state_def initial_grid_state_def replicate_8)
  show ?thesis
    using calculateNewGameBoard_overwrites_target [OF a _ b] a b c
    by simp
qed

section \<open>First sketch: classification and shift\<close>

lemma swapGameBoards_body_inv:
  assumes ok: "boards_ok s0" and k: "k < 8" and inv: "swap_inv s0 k v t"
  shows "\<exists>v' t'. swapGameBoards_body k (v, t) = Some (v', t') \<and> swap_inv s0 (Suc k) v' t'"
proof -
  from ok have len: "length (newgameboard s0) = 8"
    by (simp add: boards_ok_def)
  from inv have f: "newgameboard t = newgameboard s0" "length (gameboard t) = 8"
    "length (oldgameboard t) = 8" "gameboard t ! k = gameboard s0 ! k"
    "oldgameboard t ! k = oldgameboard s0 ! k"
    using k by (simp_all add: swap_inv_def)
  define v' where "v' = v\<lparr>stable := stable v \<and> gameboard s0 ! k = newgameboard s0 ! k,
    dead := dead v \<and> gameboard s0 ! k = 0,
    repeat := repeat v \<and> oldgameboard s0 ! k = newgameboard s0 ! k\<rparr>"
  define t' where "t' = t\<lparr>oldgameboard := (oldgameboard t)[k := gameboard s0 ! k],
    gameboard := (gameboard t)[k := newgameboard s0 ! k]\<rparr>"
  have "swapGameBoards_body k (v, t) = Some (v', t')"
    using f len k
    by (simp add: swapGameBoards_body_def arr_get_def arr_set_def v'_def t'_def Let_def)
  moreover have "swap_inv s0 (Suc k) v' t'"
    using inv k unfolding swap_inv_def v'_def t'_def
    by (auto simp add: nth_list_update less_Suc_eq)
  ultimately show ?thesis by blast
qed

lemma swapGameBoards_loop_inv:
  assumes "boards_ok s"
  shows "\<exists>v t. swapGameBoards_loop s = Some (v, t) \<and> swap_inv s 8 v t"
proof -
  have "swap_inv s 0 \<lparr>stable = True, dead = True, repeat = True\<rparr> s"
    using assms by (simp add: swap_inv_def boards_ok_def)
  then have "\<exists>p. for_each [0..<8] swapGameBoards_body
        (\<lparr>stable = True, dead = True, repeat = True\<rparr>, s) = Some p
      \<and> swap_inv s 8 (fst p) (snd p)"
    by (intro for_each_upt_invariant [where P = "\<lambda>k p. swap_inv s k (fst p) (snd p)"])
       (use swapGameBoards_body_inv [OF assms] in force)+
  then show ?thesis
    by (auto simp add: swapGameBoards_loop_def NUMROWS_def)
qed

lemma swapGameBoards_loop_result:
  assumes "boards_ok s"
  shows "swapGameBoards_loop s =
         Some (\<lparr>stable = (gameboard s = newgameboard s),
                dead = (gameboard s = [0, 0, 0, 0, 0, 0, 0, 0]),
                repeat = (oldgameboard s = newgameboard s)\<rparr>,
               s\<lparr>oldgameboard := gameboard s, gameboard := newgameboard s\<rparr>)"
proof -
  from swapGameBoards_loop_inv [OF assms] obtain v t
    where vt: "swapGameBoards_loop s = Some (v, t)" and inv: "swap_inv s 8 v t" by blast
  from assms have len: "length (gameboard s) = 8" "length (newgameboard s) = 8"
    "length (oldgameboard s) = 8"
    by (simp_all add: boards_ok_def)
  have "gameboard t = newgameboard s" "oldgameboard t = gameboard s"
    using inv len by (auto simp add: swap_inv_def list_eq_iff_nth_eq)
  then have t: "t = s\<lparr>oldgameboard := gameboard s, gameboard := newgameboard s\<rparr>"
    using inv by (simp add: swap_inv_def)
  have z: "length [0, 0, 0, 0, 0, 0, 0, 0 :: byte] = 8"
    "\<And>r. r < 8 \<Longrightarrow> [0, 0, 0, 0, 0, 0, 0, 0 :: byte] ! r = 0"
    by (simp_all add: nth_Cons' )
  have "stable v = (gameboard s = newgameboard s)"
    "dead v = (gameboard s = [0, 0, 0, 0, 0, 0, 0, 0])"
    "repeat v = (oldgameboard s = newgameboard s)"
    using inv len z by (auto simp add: swap_inv_def list_eq_iff_nth_eq)
  then have "v = \<lparr>stable = (gameboard s = newgameboard s),
                dead = (gameboard s = [0, 0, 0, 0, 0, 0, 0, 0]),
                repeat = (oldgameboard s = newgameboard s)\<rparr>"
    by simp
  with vt t show ?thesis by simp
qed

lemma setSprite_result:
  assumes "length sprite = 8"
  shows "setSprite sprite s =
         Some (s\<lparr>log := log s @ map (\<lambda>r. SetColumn (7 - r) (sprite ! r)) [0..<8]\<rparr>)"
proof -
  let ?ev = "\<lambda>r. SetColumn (7 - r) (sprite ! r)"
  let ?body = "\<lambda>r s. do {
       b \<leftarrow> arr_get sprite r;
       Some (s\<lparr>log := log s @ [SetColumn (7 - r) b]\<rparr>)
     }"
  have "\<exists>t. for_each [0..<8] ?body s = Some t \<and> t = s\<lparr>log := log s @ map ?ev [0..<8]\<rparr>"
  proof (rule for_each_upt_invariant [where P = "\<lambda>k t. t = s\<lparr>log := log s @ map ?ev [0..<k]\<rparr>"])
    show "s = s\<lparr>log := log s @ map ?ev [0..<0]\<rparr>"
      by simp
  next
    fix i :: nat and t assume "i < 8" "t = s\<lparr>log := log s @ map ?ev [0..<i]\<rparr>"
    with assms
    show "\<exists>t'. ?body i t = Some t' \<and> t' = s\<lparr>log := log s @ map ?ev [0..<Suc i]\<rparr>"
      by (simp add: arr_get_def)
  qed
  then show ?thesis
    by (simp add: setSprite_def)
qed

lemma perturbInitialGameBoard_body_inv:
  assumes "length (gameboard t) = 8"
  shows "\<exists>t'. perturbInitialGameBoard_body i t = Some t' \<and> length (gameboard t') = 8
           \<and> newgameboard t' = newgameboard t \<and> oldgameboard t' = oldgameboard t
           \<and> log t' = log t"
proof -
  have "nat (int (rng t 0) mod 8) < 8"
    by simp
  with assms show ?thesis
    by (simp add: perturbInitialGameBoard_body_def arduino_random_def NUMROWS_def NUMCOLS_def
        arr_get_def arr_set_def)
qed

lemma perturbInitialGameBoard_result:
  assumes "length (gameboard s) = 8"
  shows "\<exists>t. perturbInitialGameBoard s = Some t \<and> length (gameboard t) = 8
           \<and> newgameboard t = newgameboard s \<and> oldgameboard t = oldgameboard s
           \<and> log t = log s"
proof -
  define s1 where "s1 = s\<lparr>rng := (\<lambda>k. rng s (Suc k))\<rparr>"
  define n where "n = nat (20 + int (rng s 0) mod 80)"
  let ?P = "\<lambda>(k :: nat) (t :: life_state). length (gameboard t) = 8
           \<and> newgameboard t = newgameboard s \<and> oldgameboard t = oldgameboard s
           \<and> log t = log s"
  have "\<exists>t. for_each [0..<n] perturbInitialGameBoard_body s1 = Some t \<and> ?P n t"
  proof (rule for_each_upt_invariant [where P = ?P])
    show "?P 0 s1"
      using assms by (simp add: s1_def)
  next
    fix i t assume "i < n" "?P i t"
    with perturbInitialGameBoard_body_inv [of t i]
    show "\<exists>t'. perturbInitialGameBoard_body i t = Some t' \<and> ?P (Suc i) t'"
      by auto
  qed
  then show ?thesis
    by (simp add: perturbInitialGameBoard_def arduino_random_def s1_def n_def)
qed

lemma setUpInitialBoard_result:
  assumes "length (gameboard s) = 8"
  shows "\<exists>t. setUpInitialBoard w s = Some t \<and> length (gameboard t) = 8
           \<and> newgameboard t = newgameboard s \<and> oldgameboard t = oldgameboard s
           \<and> log t = log s
           \<and> (analogRead w RANDOMIZER_ANALOG_PIN \<le> 300 \<longrightarrow> t = s)"
proof -
  have "length (gameboard (s\<lparr>rng := r\<rparr>)) = 8" for r
    using assms by simp
  from perturbInitialGameBoard_result [OF this] assms show ?thesis
    by (auto simp add: setUpInitialBoard_def Let_def)
qed

lemma swapGameBoards_result:
  assumes "boards_ok s"
  shows "\<exists>t. swapGameBoards w s = Some (classification s, t)
           \<and> boards_ok t \<and> oldgameboard t = gameboard s \<and> newgameboard t = newgameboard s
           \<and> (selector_low w \<or> \<not> (stable (classification s) \<or> repeat (classification s))
                \<longrightarrow> gameboard t = newgameboard s)
           \<and> log t = log s
               @ (if dead (classification s) then sprite_events ij @ [Delay 1000] else [])
               @ (if stable (classification s) \<or> repeat (classification s)
                  then Delay 2000 # sprite_events (gameboard t) else [])"
proof -
  let ?v = "classification s"
  define s1 where "s1 = s\<lparr>oldgameboard := gameboard s, gameboard := newgameboard s\<rparr>"
  define s2 where "s2 = (if dead ?v
     then delay 1000 (s1\<lparr>log := log s1 @ sprite_events ij\<rparr>) else s1)"
  have v: "\<lparr>stable = (gameboard s = newgameboard s),
                dead = (gameboard s = [0, 0, 0, 0, 0, 0, 0, 0]),
                repeat = (oldgameboard s = newgameboard s)\<rparr> = ?v"
    by (auto simp add: classification_def)
  have lp: "swapGameBoards_loop s = Some (?v, s1)"
    using swapGameBoards_loop_result [OF assms] unfolding v s1_def .
  have e2: "(if dead ?v then do { s' \<leftarrow> setSprite ij s1; Some (delay 1000 s') } else Some s1)
      = Some s2"
    by (simp add: s2_def setSprite_result ij_def sprite_events_def)
  have ok2: "boards_ok s2" "oldgameboard s2 = gameboard s" "newgameboard s2 = newgameboard s"
    "gameboard s2 = newgameboard s"
    "log s2 = log s @ (if dead ?v then sprite_events ij @ [Delay 1000] else [])"
    using assms by (simp_all add: s2_def s1_def delay_def boards_ok_def)
  show ?thesis
  proof (cases "stable ?v \<or> repeat ?v")
    case False
    then have "swapGameBoards w s = Some (?v, s2)"
      by (simp add: swapGameBoards_def lp e2)
    with ok2 False show ?thesis by simp
  next
    case True
    have "length (gameboard (delay 2000 s2)) = 8"
      using ok2(1) by (simp add: delay_def boards_ok_def)
    from setUpInitialBoard_result [OF this, of w] obtain s3
      where s3: "setUpInitialBoard w (delay 2000 s2) = Some s3" "length (gameboard s3) = 8"
        "newgameboard s3 = newgameboard (delay 2000 s2)"
        "oldgameboard s3 = oldgameboard (delay 2000 s2)" "log s3 = log (delay 2000 s2)"
        "selector_low w \<longrightarrow> s3 = delay 2000 s2"
      unfolding selector_low_def by blast
    define t where "t = s3\<lparr>log := log s3 @ sprite_events (gameboard s3)\<rparr>"
    have "setSprite (gameboard s3) s3 = Some t"
      by (simp add: setSprite_result [OF s3(2)] t_def sprite_events_def)
    with True s3(1) have "swapGameBoards w s = Some (?v, t)"
      by (simp add: swapGameBoards_def lp e2)
    moreover have "boards_ok t" "oldgameboard t = gameboard s" "newgameboard t = newgameboard s"
      "selector_low w \<longrightarrow> gameboard t = newgameboard s"
      "log t = log s @ (if dead ?v then sprite_events ij @ [Delay 1000] else [])
         @ Delay 2000 # sprite_events (gameboard t)"
      using s3 ok2 by (auto simp add: t_def delay_def boards_ok_def)
    ultimately show ?thesis
      using True by simp
  qed
qed

lemma advance_newgameboard:
  assumes "boards_ok s"
  shows "\<exists>t. calculateNewGameBoard s = Some t \<and> advance (gameboard s) = Some (newgameboard t)
           \<and> calc_inv s 8 0 t"
proof -
  define z where "z = \<lparr>gameboard = gameboard s, newgameboard = [0, 0, 0, 0, 0, 0, 0, 0],
           oldgameboard = [0, 0, 0, 0, 0, 0, 0, 0], rng = (\<lambda>_. 0), log = []\<rparr>"
  from assms have len: "length (gameboard s) = 8" "length (newgameboard s) = 8"
    "length (gameboard z) = 8" "length (newgameboard z) = 8"
    by (simp_all add: boards_ok_def z_def)
  from calculateNewGameBoard_inv [OF len(1,2)] obtain t
    where t: "calculateNewGameBoard s = Some t" "calc_inv s 8 0 t" by blast
  from calculateNewGameBoard_inv [OF len(3,4)] obtain u
    where u: "calculateNewGameBoard z = Some u" "calc_inv z 8 0 u" by blast
  have "gameboard z = gameboard s"
    by (simp add: z_def)
  from calc_inv_newgameboard_unique [OF u(2) t(2) this] u(1)
  have "advance (gameboard s) = Some (newgameboard t)"
    by (simp add: advance_def z_def)
  with t show ?thesis by blast
qed

lemma loop_result:
  assumes "boards_ok s"
  shows "\<exists>a t. advance (gameboard s) = Some a \<and> length a = 8
           \<and> loop w s = Some (\<lparr>stable = (a = gameboard s),
                                 dead = (gameboard s = [0, 0, 0, 0, 0, 0, 0, 0]),
                                 repeat = (a = oldgameboard s)\<rparr>, t)
           \<and> boards_ok t \<and> oldgameboard t = gameboard s
           \<and> (selector_low w \<or> \<not> (a = gameboard s \<or> a = oldgameboard s) \<longrightarrow> gameboard t = a)"
proof -
  define s1 where "s1 = delay 333 (s\<lparr>log := log s @ sprite_events (gameboard s)\<rparr>)"
  from assms have d: "displayGameBoard s = Some (s\<lparr>log := log s @ sprite_events (gameboard s)\<rparr>)"
    by (simp add: displayGameBoard_def setSprite_result boards_ok_def sprite_events_def)
  have ok1: "boards_ok s1" and g1: "gameboard s1 = gameboard s" "oldgameboard s1 = oldgameboard s"
    using assms by (simp_all add: s1_def delay_def boards_ok_def)
  from advance_newgameboard [OF ok1] obtain s2
    where s2: "calculateNewGameBoard s1 = Some s2" "advance (gameboard s1) = Some (newgameboard s2)"
      "calc_inv s1 8 0 s2" by blast
  have ok2: "boards_ok s2" and g2: "gameboard s2 = gameboard s" "oldgameboard s2 = oldgameboard s"
    using s2(3) ok1 g1 by (simp_all add: calc_inv_def boards_ok_def)
  from swapGameBoards_result [OF ok2, of w] obtain t
    where t: "swapGameBoards w s2 = Some (classification s2, t)" "boards_ok t"
      "oldgameboard t = gameboard s2"
      "selector_low w \<or> \<not> (stable (classification s2) \<or> repeat (classification s2))
         \<longrightarrow> gameboard t = newgameboard s2"
    by blast
  have "loop w s = Some (classification s2, t)"
    using d s2(1) t(1) by (simp add: loop_def s1_def)
  moreover have "classification s2 = \<lparr>stable = (newgameboard s2 = gameboard s),
                                 dead = (gameboard s = [0, 0, 0, 0, 0, 0, 0, 0]),
                                 repeat = (newgameboard s2 = oldgameboard s)\<rparr>"
    by (simp add: classification_def g2)
  moreover have "length (newgameboard s2) = 8"
    using ok2 by (simp add: boards_ok_def)
  ultimately show ?thesis
    using s2(2) t(2,3,4) g1 g2 by (auto simp add: classification_def)
qed

section \<open>The blinker\<close>

lemma step_blinker_h:
  fixes r c i j :: int
  defines "H \<equiv> \<lambda>i j. i = r \<and> c - 1 \<le> j \<and> j \<le> c + 1"
  shows "life_table (H i j) (neighbors H i j) \<longleftrightarrow> j = c \<and> r - 1 \<le> i \<and> i \<le> r + 1"
proof -
  consider "i < r - 1" | "i = r - 1" | "i = r" | "i = r + 1" | "i > r + 1"
    by linarith
  then show ?thesis
  proof cases
    case 1
    then show ?thesis by (simp add: H_def neighbors_def life_table_def)
  next
    case 5
    then show ?thesis by (simp add: H_def neighbors_def life_table_def)
  next
    case 2
    consider "j < c - 2" | "j = c - 2" | "j = c - 1" | "j = c" | "j = c + 1" | "j = c + 2" | "j > c + 2"
      by linarith
    then show ?thesis
      by cases (simp_all add: 2 H_def neighbors_def life_table_def)
  next
    case 3
    consider "j < c - 2" | "j = c - 2" | "j = c - 1" | "j = c" | "j = c + 1" | "j = c + 2" | "j > c + 2"
      by linarith
    then show ?thesis
      by cases (simp_all add: 3 H_def neighbors_def life_table_def)
  next
    case 4
    consider "j < c - 2" | "j = c - 2" | "j = c - 1" | "j = c" | "j = c + 1" | "j = c + 2" | "j > c + 2"
      by linarith
    then show ?thesis
      by cases (simp_all add: 4 H_def neighbors_def life_table_def)
  qed
qed

lemma bit_7_int: "bit (7 :: int) k \<longleftrightarrow> k < 3"
proof -
  have m: "(7 :: int) = mask 3"
    by (simp add: mask_eq_exp_minus_1)
  show ?thesis
    by (subst m) (auto simp add: bit_mask_iff)
qed

lemma bit_7: "bit (7 :: byte) k \<longleftrightarrow> k < 3"
  by (auto simp add: bit_7_int)

lemma cell_blinker_h:
  assumes "1 \<le> r" "r \<le> 6" "1 \<le> c" "c \<le> 6"
  shows "cell (blinker_h r c) i j \<longleftrightarrow> i = int r \<and> int c - 1 \<le> j \<and> j \<le> int c + 1"
proof (cases "0 \<le> i \<and> i < 8 \<and> 0 \<le> j \<and> j < 8")
  case False
  with assms show ?thesis
    by (auto simp add: cell_def)
next
  case True
  then have n: "nat i < 8" "nat j < 8" by auto
  show ?thesis
    using True assms n
    by (auto simp add: cell_def blinker_h_def nth_list_update bit_simps bit_7_int)
qed

lemma cell_blinker_v:
  assumes "1 \<le> r" "r \<le> 6" "1 \<le> c" "c \<le> 6"
  shows "cell (blinker_v r c) i j \<longleftrightarrow> j = int c \<and> int r - 1 \<le> i \<and> i \<le> int r + 1"
proof (cases "0 \<le> i \<and> i < 8 \<and> 0 \<le> j \<and> j < 8")
  case False
  with assms show ?thesis
    by (auto simp add: cell_def)
next
  case True
  then have n: "nat i < 8" "nat j < 8" by auto
  show ?thesis
    using True assms n
    by (auto simp add: cell_def blinker_v_def nth_list_update bit_simps)
qed

lemma step_blinker_v:
  fixes r c i j :: int
  defines "V \<equiv> \<lambda>i j. j = c \<and> r - 1 \<le> i \<and> i \<le> r + 1"
  shows "life_table (V i j) (neighbors V i j) \<longleftrightarrow> i = r \<and> c - 1 \<le> j \<and> j \<le> c + 1"
proof -
  consider "j < c - 1" | "j = c - 1" | "j = c" | "j = c + 1" | "j > c + 1"
    by linarith
  then show ?thesis
  proof cases
    case 1
    then show ?thesis by (simp add: V_def neighbors_def life_table_def)
  next
    case 5
    then show ?thesis by (simp add: V_def neighbors_def life_table_def)
  next
    case 2
    consider "i < r - 2" | "i = r - 2" | "i = r - 1" | "i = r" | "i = r + 1" | "i = r + 2" | "i > r + 2"
      by linarith
    then show ?thesis
      by cases (simp_all add: 2 V_def neighbors_def life_table_def)
  next
    case 3
    consider "i < r - 2" | "i = r - 2" | "i = r - 1" | "i = r" | "i = r + 1" | "i = r + 2" | "i > r + 2"
      by linarith
    then show ?thesis
      by cases (simp_all add: 3 V_def neighbors_def life_table_def)
  next
    case 4
    consider "i < r - 2" | "i = r - 2" | "i = r - 1" | "i = r" | "i = r + 1" | "i = r + 2" | "i > r + 2"
      by linarith
    then show ?thesis
      by cases (simp_all add: 4 V_def neighbors_def life_table_def)
  qed
qed

lemma boards_eq_cell:
  assumes "length a = 8" "length b = 8" "\<And>i j. cell a i j = cell b i j"
  shows "a = b"
proof (rule nth_equalityI)
  show "length a = length b" using assms by simp
next
  fix r assume "r < length a"
  then have r: "r < 8" using assms by simp
  show "a ! r = b ! r"
  proof (rule byte_eqI)
    fix c :: nat assume "c < 8"
    with r assms(3) [of "int r" "int c"] show "bit (a ! r) c = bit (b ! r) c"
      by (simp add: cell_def)
  qed
qed

lemma advance_cell:
  assumes "length gb = 8"
  shows "\<exists>a. advance gb = Some a \<and> length a = 8
           \<and> (\<forall>i j. cell a i j \<longleftrightarrow>
                 0 \<le> i \<and> i < 8 \<and> 0 \<le> j \<and> j < 8
                 \<and> life_table (cell gb i j) (neighbors (cell gb) i j))"
proof -
  define z where "z = \<lparr>gameboard = gb, newgameboard = [0, 0, 0, 0, 0, 0, 0, 0],
           oldgameboard = [0, 0, 0, 0, 0, 0, 0, 0], rng = (\<lambda>_. 0), log = []\<rparr>"
  have "boards_ok z" and gz: "gameboard z = gb"
    using assms by (simp_all add: boards_ok_def z_def)
  from advance_newgameboard [OF this(1)] obtain t
    where t: "advance gb = Some (newgameboard t)" "calc_inv z 8 0 t"
    unfolding gz by blast
  have "cell (newgameboard t) i j \<longleftrightarrow>
          0 \<le> i \<and> i < 8 \<and> 0 \<le> j \<and> j < 8
          \<and> life_table (cell gb i j) (neighbors (cell gb) i j)" for i j
  proof (cases "0 \<le> i \<and> i < 8 \<and> 0 \<le> j \<and> j < 8")
    case False
    then show ?thesis by (auto simp add: cell_def)
  next
    case True
    then have "nat i < 8" "nat j < 8" by auto
    with t(2) have "bit (newgameboard t ! nat i) (nat j) = next_cell (cell gb) (nat i) (nat j)"
      by (simp add: calc_inv_def gz)
    with True show ?thesis
      by (simp add: cell_def next_cell_def)
  qed
  moreover have "length (newgameboard t) = 8"
    using t(2) by (simp add: calc_inv_def)
  ultimately show ?thesis
    using t(1) by blast
qed

lemma length_blinker: "length (blinker_h r c) = 8" "length (blinker_v r c) = 8"
  by (simp_all add: blinker_h_def blinker_v_def)

lemma advance_blinker_h:
  assumes "1 \<le> r" "r \<le> 6" "1 \<le> c" "c \<le> 6"
  shows "advance (blinker_h r c) = Some (blinker_v r c)"
proof -
  from advance_cell [OF length_blinker(1), of r c] obtain a
    where a: "advance (blinker_h r c) = Some a" "length a = 8"
      "\<And>i j. cell a i j \<longleftrightarrow> 0 \<le> i \<and> i < 8 \<and> 0 \<le> j \<and> j < 8
         \<and> life_table (cell (blinker_h r c) i j) (neighbors (cell (blinker_h r c)) i j)"
    by blast
  have h: "cell (blinker_h r c) = (\<lambda>i j. i = int r \<and> int c - 1 \<le> j \<and> j \<le> int c + 1)"
    by (intro ext) (rule cell_blinker_h [OF assms])
  have "cell a i j = cell (blinker_v r c) i j" for i j
    unfolding a(3) h step_blinker_h cell_blinker_v [OF assms]
    using assms by auto
  from boards_eq_cell [OF a(2) length_blinker(2) this] a(1) show ?thesis
    by simp
qed

lemma advance_blinker_v:
  assumes "1 \<le> r" "r \<le> 6" "1 \<le> c" "c \<le> 6"
  shows "advance (blinker_v r c) = Some (blinker_h r c)"
proof -
  from advance_cell [OF length_blinker(2), of r c] obtain a
    where a: "advance (blinker_v r c) = Some a" "length a = 8"
      "\<And>i j. cell a i j \<longleftrightarrow> 0 \<le> i \<and> i < 8 \<and> 0 \<le> j \<and> j < 8
         \<and> life_table (cell (blinker_v r c) i j) (neighbors (cell (blinker_v r c)) i j)"
    by blast
  have v: "cell (blinker_v r c) = (\<lambda>i j. j = int c \<and> int r - 1 \<le> i \<and> i \<le> int r + 1)"
    by (intro ext) (rule cell_blinker_v [OF assms])
  have "cell a i j = cell (blinker_h r c) i j" for i j
    unfolding a(3) v step_blinker_v cell_blinker_h [OF assms]
    using assms by auto
  from boards_eq_cell [OF a(2) length_blinker(1) this] a(1) show ?thesis
    by simp
qed

lemma blinker_distinct:
  assumes "1 \<le> r" "r \<le> 6" "1 \<le> c" "c \<le> 6"
  shows "blinker_h r c \<noteq> blinker_v r c" "blinker_v r c \<noteq> [0, 0, 0, 0, 0, 0, 0, 0]"
    "blinker_h r c \<noteq> [0, 0, 0, 0, 0, 0, 0, 0]"
proof -
  have z: "\<not> cell [0, 0, 0, 0, 0, 0, 0, 0] i j" for i j
  proof -
    have "[0, 0, 0, 0, 0, 0, 0, 0 :: byte] ! k = 0" if "k < 8" for k
      using that by (simp add: nth_Cons' )
    then show ?thesis by (auto simp add: cell_def)
  qed
  have "cell (blinker_h r c) (int r) (int c + 1)" "\<not> cell (blinker_v r c) (int r) (int c + 1)"
    "cell (blinker_v r c) (int r) (int c)"
    by (simp_all add: cell_blinker_h [OF assms] cell_blinker_v [OF assms])
  with z show "blinker_h r c \<noteq> blinker_v r c" "blinker_v r c \<noteq> [0, 0, 0, 0, 0, 0, 0, 0]"
    "blinker_h r c \<noteq> [0, 0, 0, 0, 0, 0, 0, 0]"
    by metis+
qed

lemma blinker_oscillates:
  assumes b: "1 \<le> r" "r \<le> 6" "1 \<le> c" "c \<le> 6"
    and low: "\<forall>w \<in> set ws. selector_low w"
    and ok: "boards_ok s"
    and s: "(gameboard s = blinker_h r c \<and> oldgameboard s = blinker_v r c)
          \<or> (gameboard s = blinker_v r c \<and> oldgameboard s = blinker_h r c)"
  shows "\<exists>vs t. generations ws s = Some (vs, t)
           \<and> map repeat vs = replicate (length ws) True"
  using low ok s
proof (induction ws arbitrary: s)
  case Nil
  then show ?case by simp
next
  case (Cons w ws)
  from loop_result [OF Cons.prems(2), of w] obtain a t
    where a: "advance (gameboard s) = Some a"
      and l: "loop w s = Some (\<lparr>stable = (a = gameboard s),
                                 dead = (gameboard s = [0, 0, 0, 0, 0, 0, 0, 0]),
                                 repeat = (a = oldgameboard s)\<rparr>, t)"
      and t: "boards_ok t" "oldgameboard t = gameboard s"
        "selector_low w \<or> \<not> (a = gameboard s \<or> a = oldgameboard s) \<longrightarrow> gameboard t = a"
    by blast
  from Cons.prems(3) a have ao: "a = oldgameboard s"
    using advance_blinker_h [OF b] advance_blinker_v [OF b] by auto
  from Cons.prems(1) t(3) have "gameboard t = a"
    by simp
  with ao t(2) Cons.prems(3)
  have "(gameboard t = blinker_h r c \<and> oldgameboard t = blinker_v r c)
          \<or> (gameboard t = blinker_v r c \<and> oldgameboard t = blinker_h r c)"
    by auto
  from Cons.IH [OF _ t(1) this] Cons.prems(1) obtain vs u
    where "generations ws t = Some (vs, u)" "map repeat vs = replicate (length ws) True"
    by auto
  with l ao show ?case
    by simp
qed

lemma blinker_generations:
  assumes b: "1 \<le> r" "r \<le> 6" "1 \<le> c" "c \<le> 6"
    and low: "\<forall>w \<in> set ws. selector_low w"
    and ok: "boards_ok s"
    and s: "gameboard s = blinker_h r c \<or> gameboard s = blinker_v r c"
    and old: "oldgameboard s = [0, 0, 0, 0, 0, 0, 0, 0]"
  shows "\<exists>vs t. generations (w # ws) s = Some (vs, t)
           \<and> map repeat vs = False # replicate (length ws) True"
proof -
  from loop_result [OF ok, of w] obtain a t
    where a: "advance (gameboard s) = Some a"
      and l: "loop w s = Some (\<lparr>stable = (a = gameboard s),
                                 dead = (gameboard s = [0, 0, 0, 0, 0, 0, 0, 0]),
                                 repeat = (a = oldgameboard s)\<rparr>, t)"
      and t: "boards_ok t" "oldgameboard t = gameboard s"
        "selector_low w \<or> \<not> (a = gameboard s \<or> a = oldgameboard s) \<longrightarrow> gameboard t = a"
    by blast
  from s a have av: "(gameboard s = blinker_h r c \<and> a = blinker_v r c)
      \<or> (gameboard s = blinker_v r c \<and> a = blinker_h r c)"
    using advance_blinker_h [OF b] advance_blinker_v [OF b] by auto
  with old blinker_distinct [OF b] have n: "a \<noteq> gameboard s" "a \<noteq> oldgameboard s"
    by auto
  with t(3) have "gameboard t = a"
    by simp
  with av t(2)
  have "(gameboard t = blinker_h r c \<and> oldgameboard t = blinker_v r c)
          \<or> (gameboard t = blinker_v r c \<and> oldgameboard t = blinker_h r c)"
    by auto
  from blinker_oscillates [OF b low t(1) this] obtain vs u
    where "generations ws t = Some (vs, u)" "map repeat vs = replicate (length ws) True"
    by blast
  with l n show ?thesis
    by simp
qed

lemma boards_ok_examples:
  "boards_ok blinker_state" "boards_ok block_state"
  "boards_ok ((initial_state g)\<lparr>gameboard := single_cell\<rparr>)"
  by (simp_all add: boards_ok_def blinker_state_def block_state_def initial_state_def
      blinker_h_def single_cell_def)

lemma selector_low_low_world: "selector_low low_world"
  by (simp add: selector_low_def low_world_def)

lemma advance_single_cell: "advance single_cell = Some [0, 0, 0, 0, 0, 0, 0, 0]"
  by code_simp

lemma advance_block: "advance [0, 0, 0x18, 0x18, 0, 0, 0, 0] = Some [0, 0, 0x18, 0x18, 0, 0, 0, 0]"
  by code_simp

lemma advance_dead: "advance [0, 0, 0, 0, 0, 0, 0, 0] = Some [0, 0, 0, 0, 0, 0, 0, 0]"
  by code_simp

lemma bytes_eq_bits:
  assumes "length a = 8" "length b = 8"
  shows "a = b \<longleftrightarrow> (\<forall>r < 8. \<forall>c < 8. bit (a ! r) c = bit (b ! r :: byte) c)"
proof
  assume r: "\<forall>r < 8. \<forall>c < 8. bit (a ! r) c = bit (b ! r) c"
  show "a = b"
  proof (rule nth_equalityI)
    fix r assume "r < length a"
    with r assms show "a ! r = b ! r"
      by (intro byte_eqI) simp
  qed (use assms in simp)
qed simp

section \<open>The classification of a transition\<close>

text \<open>
  C2. For every current board, calculateNewGameBoard followed by swapGameBoards returns,
  and the \<open>stable\<close> flag it computes is true exactly when the successor board is
  cell for cell the current board, that is exactly when advancing the current board gives
  the current board.
\<close>

theorem swapGameBoards_stable:
  assumes "boards_ok s"
  shows "\<exists>s1 v t. calculateNewGameBoard s = Some s1 \<and> swapGameBoards w s1 = Some (v, t)
           \<and> (stable v \<longleftrightarrow>
                (\<forall>r < 8. \<forall>c < 8. bit (newgameboard s1 ! r) c = bit (gameboard s ! r) c))
           \<and> (stable v \<longleftrightarrow> advance (gameboard s) = Some (gameboard s))"
proof -
  from advance_newgameboard [OF assms] obtain s1
    where s1: "calculateNewGameBoard s = Some s1"
      "advance (gameboard s) = Some (newgameboard s1)" "calc_inv s 8 0 s1"
    by blast
  have ok1: "boards_ok s1" and g1: "gameboard s1 = gameboard s"
    using s1(3) assms by (simp_all add: calc_inv_def boards_ok_def)
  from swapGameBoards_result [OF ok1, of w] obtain t
    where t: "swapGameBoards w s1 = Some (classification s1, t)"
    by blast
  have st: "stable (classification s1) \<longleftrightarrow> newgameboard s1 = gameboard s"
    by (simp add: classification_def g1)
  have "newgameboard s1 = gameboard s \<longleftrightarrow>
      (\<forall>r < 8. \<forall>c < 8. bit (newgameboard s1 ! r) c = bit (gameboard s ! r) c)"
    using ok1 assms by (intro bytes_eq_bits) (simp_all add: boards_ok_def)
  with s1(1,2) t st show ?thesis
    by auto
qed

theorem swapGameBoards_stable_witness:
  "boards_ok block_state
   \<and> (\<exists>s1 v t. calculateNewGameBoard block_state = Some s1
         \<and> swapGameBoards low_world s1 = Some (v, t) \<and> stable v)"
proof -
  have "advance (gameboard block_state) = Some (gameboard block_state)"
    using advance_block by (simp add: block_state_def)
  with swapGameBoards_stable [OF boards_ok_examples(2), of low_world] boards_ok_examples(2)
  show ?thesis
    by auto
qed

text \<open>
  C3, as the code has it. Starting from a board containing only a blinker away from the
  edges and an all-dead previous board, with the selector pin low on every later pass (so
  that the reseeding after a repeat leaves the boards alone), the passes of \<open>loop()\<close> all
  return, \<open>repeat\<close> is false on the first generation and true on every generation after
  it.
\<close>

theorem blinker_repeat_every_generation:
  assumes "1 \<le> r" and "r \<le> 6" and "1 \<le> c" and "c \<le> 6"
    and "\<forall>w \<in> set ws. selector_low w"
    and "boards_ok s"
    and "gameboard s = blinker_h r c \<or> gameboard s = blinker_v r c"
    and "oldgameboard s = [0, 0, 0, 0, 0, 0, 0, 0]"
  shows "\<exists>vs t. generations (w # ws) s = Some (vs, t)
           \<and> map repeat vs = False # replicate (length ws) True"
  using assms by (rule blinker_generations)

theorem blinker_repeat_every_generation_witness:
  "(1 :: nat) \<le> 3 \<and> (3 :: nat) \<le> 6
   \<and> selector_low low_world
   \<and> boards_ok blinker_state \<and> gameboard blinker_state = blinker_h 3 3
   \<and> oldgameboard blinker_state = [0, 0, 0, 0, 0, 0, 0, 0]
   \<and> (\<exists>vs t. generations [low_world, low_world, low_world, low_world] blinker_state
                = Some (vs, t)
         \<and> map repeat vs = [False, True, True, True])"
proof -
  have a: "\<forall>w \<in> set [low_world, low_world, low_world]. selector_low w"
    by (simp add: selector_low_low_world)
  have g: "gameboard blinker_state = blinker_h 3 3 \<or> gameboard blinker_state = blinker_v 3 3"
    "oldgameboard blinker_state = [0, 0, 0, 0, 0, 0, 0, 0]"
    by (simp_all add: blinker_state_def initial_state_def)
  from blinker_repeat_every_generation [OF _ _ _ _ a boards_ok_examples(1) g, of low_world]
  have "\<exists>vs t. generations [low_world, low_world, low_world, low_world] blinker_state
                = Some (vs, t)
         \<and> map repeat vs = [False, True, True, True]"
    by (simp add: numeral_3_eq_3)
  with selector_low_low_world boards_ok_examples(1) g(2) show ?thesis
    by (simp add: blinker_state_def)
qed

text \<open>
  C3, as the claim has it, fails: from the blinker with an all-dead previous board,
  \<open>repeat\<close> is true on the second generation and again on the third, the generation
  in between two of the claim's.
\<close>

theorem blinker_repeat_counterexample:
  "map_option (map repeat \<circ> fst) (generations [low_world, low_world, low_world] blinker_state)
     = Some [False, True, True]"
proof -
  have a: "\<forall>w \<in> set [low_world, low_world]. selector_low w"
    by (simp add: selector_low_low_world)
  have g: "gameboard blinker_state = blinker_h 3 3 \<or> gameboard blinker_state = blinker_v 3 3"
    "oldgameboard blinker_state = [0, 0, 0, 0, 0, 0, 0, 0]"
    by (simp_all add: blinker_state_def initial_state_def)
  from blinker_generations [OF _ _ _ _ a boards_ok_examples(1) g, of low_world]
  obtain vs t where "generations [low_world, low_world, low_world] blinker_state = Some (vs, t)"
    "map repeat vs = [False, True, True]"
    by (auto simp add: numeral_2_eq_2)
  then show ?thesis
    by simp
qed

text \<open>
  C6. Advancing the all-dead board gives the all-dead board, and on that transition
  swapGameBoards finds \<open>dead\<close> and \<open>stable\<close> both true and runs both of its branches in
  the same call: the placeholder sprite with its pause of 1000, then the pause of 2000
  and the reseeding with its display.
\<close>

theorem dead_board_dead_and_stable:
  assumes "boards_ok s" and "gameboard s = [0, 0, 0, 0, 0, 0, 0, 0]"
  shows "\<exists>s1 v t. calculateNewGameBoard s = Some s1
           \<and> newgameboard s1 = [0, 0, 0, 0, 0, 0, 0, 0]
           \<and> swapGameBoards w s1 = Some (v, t) \<and> dead v \<and> stable v
           \<and> log t = log s @ sprite_events ij @ [Delay 1000]
                       @ Delay 2000 # sprite_events (gameboard t)"
proof -
  from advance_newgameboard [OF assms(1)] obtain s1
    where s1: "calculateNewGameBoard s = Some s1"
      "advance (gameboard s) = Some (newgameboard s1)" "calc_inv s 8 0 s1"
    by blast
  have n1: "newgameboard s1 = [0, 0, 0, 0, 0, 0, 0, 0]"
    using s1(2) advance_dead by (simp add: assms(2))
  have ok1: "boards_ok s1" and g1: "gameboard s1 = [0, 0, 0, 0, 0, 0, 0, 0]" "log s1 = log s"
    using s1(3) assms by (simp_all add: calc_inv_def boards_ok_def)
  have v: "dead (classification s1)" "stable (classification s1)"
    by (simp_all add: classification_def g1 n1)
  from swapGameBoards_result [OF ok1, of w] obtain t
    where "swapGameBoards w s1 = Some (classification s1, t)"
      "log t = log s1
               @ (if dead (classification s1) then sprite_events ij @ [Delay 1000] else [])
               @ (if stable (classification s1) \<or> repeat (classification s1)
                  then Delay 2000 # sprite_events (gameboard t) else [])"
    by blast
  with s1(1) n1 v g1(2) show ?thesis
    by auto
qed

theorem dead_board_dead_and_stable_witness:
  "boards_ok ((initial_state (\<lambda>k. 0))\<lparr>gameboard := [0, 0, 0, 0, 0, 0, 0, 0]\<rparr>)
   \<and> (\<exists>s1 v t.
         calculateNewGameBoard ((initial_state (\<lambda>k. 0))\<lparr>gameboard := [0, 0, 0, 0, 0, 0, 0, 0]\<rparr>)
           = Some s1
         \<and> newgameboard s1 = [0, 0, 0, 0, 0, 0, 0, 0]
         \<and> swapGameBoards low_world s1 = Some (v, t) \<and> dead v \<and> stable v
         \<and> log t = sprite_events ij @ [Delay 1000] @ Delay 2000 # sprite_events (gameboard t))"
proof -
  have a: "boards_ok ((initial_state (\<lambda>k. 0))\<lparr>gameboard := [0, 0, 0, 0, 0, 0, 0, 0]\<rparr>)"
    by (simp add: boards_ok_def initial_state_def)
  from dead_board_dead_and_stable [OF a, of low_world] a show ?thesis
    by (simp add: initial_state_def)
qed

text \<open>
  C10. The previous board starts as the all-dead board, and \<open>repeat\<close> can be true on the
  very first generation: from the initial state with a single isolated alive cell as the
  current board, whatever the generator and the outside world, the first
  calculateNewGameBoard and swapGameBoards return and \<open>repeat\<close> is true.
\<close>

theorem repeat_on_first_generation:
  "oldgameboard (initial_state g) = [0, 0, 0, 0, 0, 0, 0, 0]
   \<and> (\<exists>s1 v t. calculateNewGameBoard ((initial_state g)\<lparr>gameboard := single_cell\<rparr>) = Some s1
         \<and> swapGameBoards w s1 = Some (v, t) \<and> repeat v)"
proof -
  let ?s = "(initial_state g)\<lparr>gameboard := single_cell\<rparr>"
  from advance_newgameboard [OF boards_ok_examples(3), of g] obtain s1
    where s1: "calculateNewGameBoard ?s = Some s1"
      "advance (gameboard ?s) = Some (newgameboard s1)" "calc_inv ?s 8 0 s1"
    by blast
  have n1: "newgameboard s1 = [0, 0, 0, 0, 0, 0, 0, 0]"
    using s1(2) advance_single_cell by simp
  have ok1: "boards_ok s1" and o1: "oldgameboard s1 = [0, 0, 0, 0, 0, 0, 0, 0]"
    using s1(3) boards_ok_examples(3) [of g]
    by (simp_all add: calc_inv_def boards_ok_def initial_state_def)
  from swapGameBoards_result [OF ok1, of w] obtain t
    where "swapGameBoards w s1 = Some (classification s1, t)"
    by blast
  moreover have "repeat (classification s1)"
    by (simp add: classification_def n1 o1)
  ultimately show ?thesis
    using s1(1) by (auto simp add: initial_state_def)
qed

section \<open>Second sketch: the display bytes\<close>

text \<open>
  C8 fails on the code. On the all-dead grid the claim wants every row byte to be 0;
  displayGameBoard tests \<open>gameBoard[x,y]\<close>, the address of a row, which is never null,
  and so fills every row byte with ones.
\<close>

theorem displayGameBoard_all_dead_grid:
  "map_option gameboard_g (displayGameBoard_g dead_grid_state)
     = Some [0xFF, 0xFF, 0xFF, 0xFF, 0xFF, 0xFF, 0xFF, 0xFF]"
  by code_simp

end
